theory Spec2Isabelle
  imports Complex_Main
begin

section \<open>Numbers and library functions\<close>

text \<open>
  The simulation kernel of \<^verbatim>\<open>lander.py\<close> computes with Python floats. They are
  modelled as mathematical reals: rounding, overflow to infinity, NaN and signed zeros
  are outside this model. The one exception is the section on vector addition in double
  precision, which gives \<^verbatim>\<open>Vector.__add__\<close> a second reading in IEEE binary64, for the
  laws of vector addition, whose truth depends on the rounding.
  Python integers that only ever mix with floats (\<^verbatim>\<open>EMPTY_MASS\<close>, the initial
  \<^verbatim>\<open>fuel\<close>, ...) are reals too; the truth test \<^verbatim>\<open>if self.fuel:\<close> is
  \<open>fuel \<noteq> 0\<close>.
\<close>

definition HALF_PI :: real where
  "HALF_PI = pi / 2"

definition DEGREES_PER_RADIAN :: real where
  "DEGREES_PER_RADIAN = 180 / pi"

definition EMPTY_MASS :: real where
  "EMPTY_MASS = 5000"

definition EXHAUST_VELOCITY :: real where
  "EXHAUST_VELOCITY = 500"

definition G :: real where
  "G = 10"

definition THROTTLE_MAX :: real where
  "THROTTLE_MAX = 600"

definition TURN_RATE :: real where
  "TURN_RATE = 2 / 10"

definition MAX_Y :: real where
  "MAX_Y = 768"

definition SPARKS_PER_KG :: real where
  "SPARKS_PER_KG = 5 / 10"

definition SPARK_LIFETIME :: real where
  "SPARK_LIFETIME = 1"

text \<open>
  \<^verbatim>\<open>math.atan2(y, x)\<close>: the angle of the point \<open>(x, y)\<close> in \<open>(-\<pi>, \<pi>]\<close>, and \<open>0\<close>
  at the origin, written out by quadrant over \<open>arctan\<close>.
\<close>

definition math_atan2 :: "real \<Rightarrow> real \<Rightarrow> real" where
  "math_atan2 y x =
     (if 0 < x then arctan (y / x)
      else if x < 0 then (if 0 \<le> y then arctan (y / x) + pi else arctan (y / x) - pi)
      else if 0 < y then pi / 2
      else if y < 0 then - (pi / 2)
      else 0)"

text \<open>\<^verbatim>\<open>int(x)\<close> on a float truncates towards zero.\<close>

definition py_int :: "real \<Rightarrow> int" where
  "py_int x = (if 0 \<le> x then \<lfloor>x\<rfloor> else \<lceil>x\<rceil>)"

text \<open>
  \<^verbatim>\<open>xrange(n)\<close> runs \<open>n\<close> times for positive \<open>n\<close> and not at all otherwise.
\<close>

definition xrange :: "int \<Rightarrow> nat list" where
  "xrange n = [0..<nat n]"

datatype error = ZeroDivisionError

section \<open>Vector\<close>

record Vector =
  direction :: real
  magnitude :: real

definition horizontal_component :: "Vector \<Rightarrow> real" where
  "horizontal_component v = magnitude v * cos (direction v)"

definition vertical_component :: "Vector \<Rightarrow> real" where
  "vertical_component v = magnitude v * sin (direction v)"

text \<open>
  \<^verbatim>\<open>Vector.__add__\<close>. The argument of \<^verbatim>\<open>math.sqrt\<close> is a sum of two squares,
  so the call never raises; see \<open>Vector_add_sqrt_arg\<close>.
\<close>

definition Vector_add :: "Vector \<Rightarrow> Vector \<Rightarrow> Vector" where
  "Vector_add self other =
     (let x = horizontal_component self + horizontal_component other;
          y = vertical_component self + vertical_component other
      in \<lparr>direction = math_atan2 y x, magnitude = sqrt (x * x + y * y)\<rparr>)"

section \<open>Spark\<close>

text \<open>
  A spark of rocket exhaust. The fields \<^verbatim>\<open>position\<close> and \<^verbatim>\<open>velocity\<close> carry the
  prefix \<open>spark_\<close> here, because the ship has fields of the same names. The class
  attribute \<^verbatim>\<open>Spark.sparks\<close>, the list of all sparks, is passed in and returned.
\<close>

record Spark =
  spark_position :: "real \<times> real"
  spark_velocity :: Vector
  start_time :: real
  age :: real

text \<open>
  \<^verbatim>\<open>Spark.__init__\<close>. The two calls of \<^verbatim>\<open>random.uniform\<close> are the pair \<open>rnd\<close>, in
  the order of the calls: the direction offset first, the velocity offset second. The
  result is the list of all sparks after \<^verbatim>\<open>self.sparks.insert(0, self)\<close>.
\<close>

definition Spark_init ::
  "real \<times> real \<Rightarrow> real \<Rightarrow> real \<Rightarrow> real \<times> real \<Rightarrow> Spark list \<Rightarrow> Spark list" where
  "Spark_init position0 direction0 start_time0 rnd sparks =
     (let direction1 = direction0 + fst rnd;
          velocity1 = EXHAUST_VELOCITY + snd rnd;
          self = \<lparr>spark_position = position0,
                  spark_velocity = \<lparr>direction = direction1, magnitude = velocity1\<rparr>,
                  start_time = start_time0,
                  age = 0\<rparr>
      in self # sparks)"

text \<open>
  The object that \<^verbatim>\<open>Spark.__init__\<close> builds, by itself; \<open>Spark_init_Cons\<close> below
  relates the two.
\<close>

definition new_spark :: "real \<times> real \<Rightarrow> real \<Rightarrow> real \<Rightarrow> real \<times> real \<Rightarrow> Spark" where
  "new_spark position0 direction0 start_time0 rnd =
     \<lparr>spark_position = position0,
      spark_velocity = \<lparr>direction = direction0 + fst rnd, magnitude = EXHAUST_VELOCITY + snd rnd\<rparr>,
      start_time = start_time0,
      age = 0\<rparr>"

text \<open>\<^verbatim>\<open>Spark.update\<close>.\<close>

definition Spark_update :: "Spark \<Rightarrow> real \<Rightarrow> Spark" where
  "Spark_update self delta_t =
     (let (x, y) = spark_position self;
          x = x + horizontal_component (spark_velocity self) * delta_t;
          y = y + vertical_component (spark_velocity self) * delta_t;
          self = self\<lparr>spark_velocity :=
                   Vector_add (spark_velocity self) \<lparr>direction = - HALF_PI, magnitude = G * delta_t\<rparr>\<rparr>
      in self\<lparr>spark_position := (x, y)\<rparr>)"

text \<open>
  \<^verbatim>\<open>Spark.update_all\<close>: the loop over the list, front to back. At the first spark
  whose new age is above 1, \<^verbatim>\<open>del cls.sparks[i:]\<close> drops it and the rest of the list,
  and \<^verbatim>\<open>break\<close> ends the loop. The divisor \<^verbatim>\<open>SPARK_LIFETIME\<close> is the constant 1.
\<close>

fun update_all :: "real \<Rightarrow> real \<Rightarrow> Spark list \<Rightarrow> Spark list" where
  "update_all delta_t now [] = []"
| "update_all delta_t now (spark # sparks) =
     (let spark = spark\<lparr>age := (now - start_time spark) / SPARK_LIFETIME\<rparr>
      in if age spark > 1 then []
         else Spark_update spark delta_t # update_all delta_t now sparks)"

section \<open>Ship\<close>

text \<open>
  The pygame objects of the ship are kept as symbolic values: an image is the base image
  or the result of \<^verbatim>\<open>pygame.transform.rotate\<close> of the base image by an angle in degrees,
  and a rectangle is the \<^verbatim>\<open>get_rect()\<close> of an image. The fields \<open>sprite_image\<close> and
  \<open>sprite_rect\<close> are \<^verbatim>\<open>self.sprite.image\<close> and \<^verbatim>\<open>self.sprite.rect\<close>.
\<close>

datatype image = Base_image | Rotate real

datatype rect = Get_rect image

record Ship =
  position :: "real \<times> real"
  velocity :: Vector
  orientation :: real
  throttle :: real
  rotation :: int
  fuel :: real
  image :: image
  sprite_image :: image
  sprite_rect :: rect

text \<open>\<^verbatim>\<open>Ship.__init__\<close>.\<close>

definition Ship_init :: Ship where
  "Ship_init =
     \<lparr>position = (0, MAX_Y),
      velocity = \<lparr>direction = 0, magnitude = 20\<rparr>,
      orientation = 0,
      throttle = 0,
      rotation = 0,
      fuel = 5000,
      image = Base_image,
      sprite_image = Base_image,
      sprite_rect = Get_rect Base_image\<rparr>"

definition mass :: "Ship \<Rightarrow> real" where
  "mass self = fuel self + EMPTY_MASS"

text \<open>
  \<^verbatim>\<open>Ship.update\<close>, block by block in the order of the source. First
  ``update position based on velocity''.
\<close>

definition update_position :: "Ship \<Rightarrow> real \<Rightarrow> Ship" where
  "update_position self delta_t =
     (let (x, y) = position self;
          x = x + horizontal_component (velocity self) * delta_t;
          y = y + vertical_component (velocity self) * delta_t
      in self\<lparr>position := (x, y)\<rparr>)"

text \<open>``update velocity based on gravity''.\<close>

definition update_gravity :: "Ship \<Rightarrow> real \<Rightarrow> Ship" where
  "update_gravity self delta_t =
     self\<lparr>velocity := Vector_add (velocity self) \<lparr>direction = - HALF_PI, magnitude = G * delta_t\<rparr>\<rparr>"

text \<open>
  The fuel deduction inside \<^verbatim>\<open>if self.throttle > 0\<close>: the value of the local variable
  \<^verbatim>\<open>fuel_burned\<close> after the inner \<^verbatim>\<open>if\<close>, and the ship.
\<close>

definition burn_fuel :: "Ship \<Rightarrow> real \<Rightarrow> real \<times> Ship" where
  "burn_fuel self delta_t =
     (let fuel_burned = throttle self * THROTTLE_MAX * delta_t
      in if fuel_burned > fuel self
         then (fuel self, self\<lparr>fuel := 0, throttle := 0\<rparr>)
         else (fuel_burned, self\<lparr>fuel := fuel self - fuel_burned\<rparr>))"

text \<open>
  The thrust: \<^verbatim>\<open>momentum / self.mass()\<close> raises \<^verbatim>\<open>ZeroDivisionError\<close> when the mass
  is zero. The time step that \<^verbatim>\<open>main\<close> passes is a float, and so is every positive
  throttle, so the operands are floats except where \<^verbatim>\<open>fuel_burned\<close> is the integer
  fuel of the first branch above, the initial 5000 or the 0 that branch stores; there
  the quotient, \<open>2500000 / 5000\<close> or \<open>0 / 5000\<close>, is exact, and the integer division of
  Python 2 agrees with the real quotient.
\<close>

definition apply_thrust :: "Ship \<Rightarrow> real \<Rightarrow> error + Ship" where
  "apply_thrust self fuel_burned =
     (let momentum = fuel_burned * EXHAUST_VELOCITY
      in if mass self = 0 then Inl ZeroDivisionError
         else Inr (self\<lparr>velocity :=
                Vector_add (velocity self)
                  \<lparr>direction = orientation self + HALF_PI, magnitude = momentum / mass self\<rparr>\<rparr>))"

text \<open>
  The loop that creates the sparks. The \<open>i\<close>-th spark of the call draws its two random
  numbers as \<open>rnd i\<close>.
\<close>

definition spawn_sparks ::
  "Ship \<Rightarrow> real \<Rightarrow> real \<Rightarrow> (nat \<Rightarrow> real \<times> real) \<Rightarrow> Spark list \<Rightarrow> Spark list" where
  "spawn_sparks self fuel_burned now rnd sparks =
     fold (\<lambda>i sparks. Spark_init (position self) (orientation self - HALF_PI) now (rnd i) sparks)
       (xrange (py_int (fuel_burned * SPARKS_PER_KG))) sparks"

text \<open>``update orientation based on rotation''.\<close>

definition update_orientation :: "Ship \<Rightarrow> real \<Rightarrow> Ship" where
  "update_orientation self delta_t =
     (if rotation self \<noteq> 0 then
        (let self = self\<lparr>orientation := orientation self + of_int (rotation self) * TURN_RATE * delta_t\<rparr>;
             self = (if orientation self = 0 then self\<lparr>image := Base_image\<rparr>
                     else (let self = self\<lparr>image := Rotate (orientation self * DEGREES_PER_RADIAN)\<rparr>
                           in self\<lparr>sprite_image := image self\<rparr>))
         in self\<lparr>sprite_rect := Get_rect (sprite_image self)\<rparr>)
      else self)"

text \<open>The whole method: the new ship and the new list of all sparks, or the exception.\<close>

definition Ship_update ::
  "Ship \<Rightarrow> real \<Rightarrow> real \<Rightarrow> (nat \<Rightarrow> real \<times> real) \<Rightarrow> Spark list \<Rightarrow> error + Ship \<times> Spark list" where
  "Ship_update self delta_t now rnd sparks =
     (let self = update_position self delta_t;
          self = update_gravity self delta_t
      in if throttle self > 0 then
           (let (fuel_burned, self) = burn_fuel self delta_t
            in case apply_thrust self fuel_burned of
                 Inl e \<Rightarrow> Inl e
               | Inr self \<Rightarrow>
                   Inr (update_orientation self delta_t,
                        spawn_sparks self fuel_burned now rnd sparks))
         else Inr (update_orientation self delta_t, sparks))"

definition increase_throttle :: "Ship \<Rightarrow> Ship" where
  "increase_throttle self =
     (if fuel self \<noteq> 0 then
        (let self = self\<lparr>throttle := throttle self + 1 / 10\<rparr>
         in if throttle self > 1 then self\<lparr>throttle := 1\<rparr> else self)
      else self)"

definition decrease_throttle :: "Ship \<Rightarrow> Ship" where
  "decrease_throttle self =
     (let self = self\<lparr>throttle := throttle self - 1 / 10\<rparr>
      in if throttle self < 0 then self\<lparr>throttle := 0\<rparr> else self)"

definition set_rotation :: "Ship \<Rightarrow> int \<Rightarrow> Ship" where
  "set_rotation self rotation0 = self\<lparr>rotation := rotation0\<rparr>"

section \<open>Sequences of calls\<close>

text \<open>
  The calls that \<^verbatim>\<open>main\<close> makes on the ship and on the sparks, as data, and the effect
  of a sequence of them on the pair of the ship and the list of all sparks. An exception
  ends the run.
\<close>

datatype call =
    Update real real "nat \<Rightarrow> real \<times> real"
  | Update_all real real
  | Increase_throttle
  | Decrease_throttle
  | Set_rotation int

fun do_call :: "call \<Rightarrow> Ship \<times> Spark list \<Rightarrow> error + Ship \<times> Spark list" where
  "do_call (Update delta_t now rnd) (ship, sparks) = Ship_update ship delta_t now rnd sparks"
| "do_call (Update_all delta_t now) (ship, sparks) = Inr (ship, update_all delta_t now sparks)"
| "do_call Increase_throttle (ship, sparks) = Inr (increase_throttle ship, sparks)"
| "do_call Decrease_throttle (ship, sparks) = Inr (decrease_throttle ship, sparks)"
| "do_call (Set_rotation r) (ship, sparks) = Inr (set_rotation ship r, sparks)"

fun run :: "call list \<Rightarrow> Ship \<times> Spark list \<Rightarrow> error + Ship \<times> Spark list" where
  "run [] w = Inr w"
| "run (c # cs) w = (case do_call c w of Inl e \<Rightarrow> Inl e | Inr w' \<Rightarrow> run cs w')"

text \<open>The time step of a call, where it has one, is not negative.\<close>

fun nonneg_dt :: "call \<Rightarrow> bool" where
  "nonneg_dt (Update delta_t now rnd) = (0 \<le> delta_t)"
| "nonneg_dt (Update_all delta_t now) = (0 \<le> delta_t)"
| "nonneg_dt _ = True"

text \<open>The time stamps that the sparks created by a run receive, in the order of the calls.\<close>

fun spawn_times :: "call list \<Rightarrow> real list" where
  "spawn_times [] = []"
| "spawn_times (Update delta_t now rnd # cs) = now # spawn_times cs"
| "spawn_times (c # cs) = spawn_times cs"

text \<open>A list of sparks is in order of age, the newest at index 0.\<close>

definition newest_first :: "Spark list \<Rightarrow> bool" where
  "newest_first sparks = sorted_wrt (\<lambda>a b. start_time b \<le> start_time a) sparks"

text \<open>A run of \<^verbatim>\<open>Spark.update_all\<close> alone, one pair \<open>(delta_t, now)\<close> for each call.\<close>

definition update_all_seq :: "(real \<times> real) list \<Rightarrow> Spark list \<Rightarrow> Spark list" where
  "update_all_seq ticks sparks = fold (\<lambda>(delta_t, now) sparks. update_all delta_t now sparks) ticks sparks"

section \<open>Vector addition in double precision\<close>

text \<open>
  A second reading of \<^verbatim>\<open>Vector.__add__\<close>, in the arithmetic the interpreter runs: IEEE
  binary64 with rounding to nearest, ties to even. A double is a sign and a magnitude
  (\<open>Num True 0\<close> is the negative zero), an infinity with its sign, or NaN. The magnitudes
  of the doubles are the reals that \<open>round_mag\<close> leaves alone and that are below
  \<open>2^1024\<close>; \<open>is_double\<close> says so.
\<close>

datatype double = Num bool real | Infinity bool | NaN

datatype float_error = ValueError

definition signed_real :: "bool \<Rightarrow> real \<Rightarrow> real" where
  "signed_real s a = (if s then - a else a)"

text \<open>The nearest integer, the even one of two that are equally near.\<close>

definition round_even :: "real \<Rightarrow> int" where
  "round_even y =
     (let f = \<lfloor>y\<rfloor>; d = y - of_int f
      in if d < 1 / 2 then f else if 1 / 2 < d then f + 1 else if even f then f else f + 1)"

text \<open>
  The distance between neighbouring doubles at the magnitude \<open>v\<close>: 52 binary places
  below the leading bit, and \<open>2^-1074\<close> for the subnormal numbers.
\<close>

definition ulp :: "real \<Rightarrow> real" where
  "ulp v = 2 powr (of_int (max \<lfloor>log 2 v\<rfloor> (- 1022)) - 52)"

definition round_mag :: "real \<Rightarrow> real" where
  "round_mag v = ulp v * of_int (round_even (v / ulp v))"

text \<open>A magnitude that rounds to \<open>2^1024\<close> or more overflows to infinity.\<close>

definition round_double :: "bool \<Rightarrow> real \<Rightarrow> double" where
  "round_double s v = (let r = round_mag v in if 2 ^ 1024 \<le> r then Infinity s else Num s r)"

definition double_of_real :: "real \<Rightarrow> double" where
  "double_of_real v = round_double (v < 0) \<bar>v\<bar>"

definition is_double :: "real \<Rightarrow> bool" where
  "is_double a = (0 \<le> a \<and> a < 2 ^ 1024 \<and> round_mag a = a)"

text \<open>
  The float operators \<^verbatim>\<open>+\<close> and \<^verbatim>\<open>*\<close> of Python: they never raise; an overflow gives an
  infinity. A sum that is exactly zero is the negative zero only when both operands are
  negative zeros.
\<close>

fun fadd :: "double \<Rightarrow> double \<Rightarrow> double" where
  "fadd NaN y = NaN"
| "fadd x NaN = NaN"
| "fadd (Infinity s) (Infinity t) = (if s = t then Infinity s else NaN)"
| "fadd (Infinity s) (Num t b) = Infinity s"
| "fadd (Num s a) (Infinity t) = Infinity t"
| "fadd (Num s a) (Num t b) =
     (let v = signed_real s a + signed_real t b
      in if v = 0 then Num (s \<and> t) 0 else double_of_real v)"

fun fmul :: "double \<Rightarrow> double \<Rightarrow> double" where
  "fmul NaN y = NaN"
| "fmul x NaN = NaN"
| "fmul (Infinity s) (Infinity t) = Infinity (s \<noteq> t)"
| "fmul (Infinity s) (Num t b) = (if b = 0 then NaN else Infinity (s \<noteq> t))"
| "fmul (Num s a) (Infinity t) = (if a = 0 then NaN else Infinity (s \<noteq> t))"
| "fmul (Num s a) (Num t b) = round_double (s \<noteq> t) (a * b)"

text \<open>
  \<^verbatim>\<open>math.sqrt\<close> raises \<^verbatim>\<open>ValueError\<close> on a negative number and on the negative infinity,
  and is correctly rounded otherwise, as IEEE 754 requires.
\<close>

fun math_sqrt :: "double \<Rightarrow> float_error + double" where
  "math_sqrt NaN = Inr NaN"
| "math_sqrt (Infinity s) = (if s then Inl ValueError else Inr (Infinity False))"
| "math_sqrt (Num s a) =
     (if a = 0 then Inr (Num s 0)
      else if s then Inl ValueError
      else Inr (round_double False (sqrt a)))"

text \<open>
  \<^verbatim>\<open>math.cos\<close> and \<^verbatim>\<open>math.sin\<close> raise \<^verbatim>\<open>ValueError\<close> on an infinity. On a finite
  argument they are taken as the correctly rounded cosine and sine; the C library may
  differ from that in the last place, except at zero, where \<open>cos 0 = 1\<close> and
  \<open>sin (\<plusminus>0) = \<plusminus>0\<close> are exact. The facts below use these two at zero only, or do not
  depend on their values.
\<close>

fun math_cos :: "double \<Rightarrow> float_error + double" where
  "math_cos NaN = Inr NaN"
| "math_cos (Infinity s) = Inl ValueError"
| "math_cos (Num s a) = Inr (double_of_real (cos (signed_real s a)))"

fun math_sin :: "double \<Rightarrow> float_error + double" where
  "math_sin NaN = Inr NaN"
| "math_sin (Infinity s) = Inl ValueError"
| "math_sin (Num s a) =
     (if a = 0 then Inr (Num s 0) else Inr (double_of_real (sin (signed_real s a))))"

text \<open>
  \<^verbatim>\<open>math.atan2(y, x)\<close> with the special cases that the interpreter decides before it
  calls the C library: NaN, the infinities, and \<open>y = \<plusminus>0\<close>, where the result is \<open>\<plusminus>0\<close> for
  \<open>x\<close> of positive sign and \<open>\<plusminus>\<pi>\<close> for \<open>x\<close> of negative sign, the negative zero included.
  The general case is taken as correctly rounded.
\<close>

fun math_atan2_double :: "double \<Rightarrow> double \<Rightarrow> double" where
  "math_atan2_double NaN x = NaN"
| "math_atan2_double y NaN = NaN"
| "math_atan2_double (Infinity sy) (Infinity sx) =
     (if sx then round_double sy (3 / 4 * round_mag pi) else round_double sy (pi / 4))"
| "math_atan2_double (Infinity sy) (Num sx ax) = round_double sy (pi / 2)"
| "math_atan2_double (Num sy ay) (Infinity sx) =
     (if sx then round_double sy pi else Num sy 0)"
| "math_atan2_double (Num sy ay) (Num sx ax) =
     (if ay = 0 then (if sx then round_double sy pi else Num sy 0)
      else round_double sy \<bar>math_atan2 (signed_real sy ay) (signed_real sx ax)\<bar>)"

record Vector_double =
  direction_double :: double
  magnitude_double :: double

definition horizontal_component_double :: "Vector_double \<Rightarrow> float_error + double" where
  "horizontal_component_double v =
     (case math_cos (direction_double v) of
        Inl e \<Rightarrow> Inl e
      | Inr c \<Rightarrow> Inr (fmul (magnitude_double v) c))"

definition vertical_component_double :: "Vector_double \<Rightarrow> float_error + double" where
  "vertical_component_double v =
     (case math_sin (direction_double v) of
        Inl e \<Rightarrow> Inl e
      | Inr s \<Rightarrow> Inr (fmul (magnitude_double v) s))"

text \<open>\<^verbatim>\<open>Vector.__add__\<close> on doubles, in the order in which the source evaluates.\<close>

definition Vector_add_double ::
  "Vector_double \<Rightarrow> Vector_double \<Rightarrow> float_error + Vector_double" where
  "Vector_add_double self other =
     (case horizontal_component_double self of Inl e \<Rightarrow> Inl e | Inr xs \<Rightarrow>
      case horizontal_component_double other of Inl e \<Rightarrow> Inl e | Inr xo \<Rightarrow>
      let x = fadd xs xo in
      case vertical_component_double self of Inl e \<Rightarrow> Inl e | Inr ys \<Rightarrow>
      case vertical_component_double other of Inl e \<Rightarrow> Inl e | Inr yo \<Rightarrow>
      let y = fadd ys yo in
      case math_sqrt (fadd (fmul x x) (fmul y y)) of Inl e \<Rightarrow> Inl e | Inr m \<Rightarrow>
      Inr \<lparr>direction_double = math_atan2_double y x, magnitude_double = m\<rparr>)"

section \<open>Facts about vectors\<close>

lemma Vector_add_sqrt_arg: "0 \<le> x * x + y * (y::real)"
  by simp

lemma hyp_pos:
  fixes x y :: real
  assumes "0 < x"
  shows "sqrt (x * x + y * y) = x * sqrt (1 + (y / x)\<^sup>2)"
proof -
  have "x * x + y * y = x\<^sup>2 * (1 + (y / x)\<^sup>2)"
    using assms by (simp add: power2_eq_square field_simps)
  then have "sqrt (x * x + y * y) = sqrt (x\<^sup>2) * sqrt (1 + (y / x)\<^sup>2)"
    by (simp add: real_sqrt_mult)
  then show ?thesis using assms by simp
qed

lemma hyp_neg:
  fixes x y :: real
  assumes "x < 0"
  shows "sqrt (x * x + y * y) = - x * sqrt (1 + (y / x)\<^sup>2)"
proof -
  have "x * x + y * y = x\<^sup>2 * (1 + (y / x)\<^sup>2)"
    using assms by (simp add: power2_eq_square field_simps)
  then have "sqrt (x * x + y * y) = sqrt (x\<^sup>2) * sqrt (1 + (y / x)\<^sup>2)"
    by (simp add: real_sqrt_mult)
  then show ?thesis using assms by simp
qed

lemma sqrt_one_plus_sq_pos: "0 < sqrt (1 + (t::real)\<^sup>2)"
  by (simp add: add_pos_nonneg)

lemma polar_cos: "sqrt (x * x + y * y) * cos (math_atan2 y x) = x"
proof -
  let ?r = "sqrt (1 + (y / x)\<^sup>2)"
  have r: "?r \<noteq> 0" using sqrt_one_plus_sq_pos [of "y / x"] by simp
  consider "0 < x" | "x < 0" | "x = 0" by linarith
  then show ?thesis
  proof cases
    case 1
    then show ?thesis using r
      by (simp add: math_atan2_def hyp_pos cos_arctan)
  next
    case 2
    then show ?thesis using r
      by (simp add: math_atan2_def hyp_neg cos_arctan)
  next
    case 3
    then show ?thesis by (simp add: math_atan2_def)
  qed
qed

lemma polar_sin: "sqrt (x * x + y * y) * sin (math_atan2 y x) = y"
proof -
  let ?r = "sqrt (1 + (y / x)\<^sup>2)"
  have r: "?r \<noteq> 0" using sqrt_one_plus_sq_pos [of "y / x"] by simp
  consider "0 < x" | "x < 0" | "x = 0" by linarith
  then show ?thesis
  proof cases
    case 1
    then show ?thesis using r
      by (simp add: math_atan2_def hyp_pos sin_arctan)
  next
    case 2
    then show ?thesis using r
      by (simp add: math_atan2_def hyp_neg sin_arctan)
  next
    case 3
    then show ?thesis by (simp add: math_atan2_def)
  qed
qed

lemma horizontal_component_add:
  "horizontal_component (Vector_add a b) = horizontal_component a + horizontal_component b"
  by (simp add: Vector_add_def Let_def horizontal_component_def [of "\<lparr>direction = _, magnitude = _\<rparr>"]
      polar_cos)

lemma vertical_component_add:
  "vertical_component (Vector_add a b) = vertical_component a + vertical_component b"
  by (simp add: Vector_add_def Let_def vertical_component_def [of "\<lparr>direction = _, magnitude = _\<rparr>"]
      polar_sin)

lemma Vector_add_by_components:
  "Vector_add a b =
     \<lparr>direction = math_atan2 (vertical_component a + vertical_component b)
                    (horizontal_component a + horizontal_component b),
      magnitude = sqrt ((horizontal_component a + horizontal_component b)
                        * (horizontal_component a + horizontal_component b)
                      + (vertical_component a + vertical_component b)
                        * (vertical_component a + vertical_component b))\<rparr>"
  by (simp add: Vector_add_def Let_def)

text \<open>
  For the exact real values of the formulas the sum itself, not only its components, is
  commutative and associative. The doubles that the code computes are another matter;
  see the section on vector addition in double precision.
\<close>

lemma Vector_add_commute: "Vector_add a b = Vector_add b a"
  by (simp add: Vector_add_by_components add.commute)

lemma Vector_add_assoc: "Vector_add (Vector_add a b) c = Vector_add a (Vector_add b c)"
  by (simp add: Vector_add_by_components [of "Vector_add a b" c]
      Vector_add_by_components [of a "Vector_add b c"]
      horizontal_component_add vertical_component_add add.assoc)

lemma Vector_add_twice:
  assumes "0 \<le> m"
  shows "Vector_add \<lparr>direction = 0, magnitude = m\<rparr> \<lparr>direction = 0, magnitude = m\<rparr>
         = \<lparr>direction = 0, magnitude = 2 * m\<rparr>"
  using assms
  by (simp add: Vector_add_def Let_def horizontal_component_def vertical_component_def math_atan2_def)

section \<open>Facts about rounding to double\<close>

lemma round_even_err: "\<bar>of_int (round_even y) - y\<bar> \<le> 1 / 2"
  unfolding round_even_def Let_def by (auto; linarith)

lemma round_even_unique:
  assumes "\<bar>y - of_int k\<bar> < 1 / 2"
  shows "round_even y = k"
proof -
  have "\<bar>of_int (round_even y) - of_int k :: real\<bar> < 1"
    using round_even_err [of y] assms by linarith
  then have "\<bar>round_even y - k\<bar> < 1"
    by (metis of_int_abs of_int_diff of_int_less_1_iff)
  then show ?thesis by simp
qed

lemma round_even_of_int [simp]: "round_even (of_int k) = k"
  by (rule round_even_unique) simp

lemma round_even_ge:
  assumes "of_int k \<le> y"
  shows "k \<le> round_even y"
proof -
  have "k \<le> \<lfloor>y\<rfloor>" using assms by (simp add: le_floor_iff)
  then show ?thesis unfolding round_even_def Let_def by auto
qed

lemma round_even_tie_even:
  assumes "even k"
  shows "round_even (of_int k + 1 / 2) = k"
proof -
  have "\<lfloor>of_int k + 1 / 2 :: real\<rfloor> = k" by linarith
  then show ?thesis using assms by (simp add: round_even_def Let_def)
qed

lemma ulp_eq:
  fixes e :: int
  assumes "- 1022 \<le> e" and "2 powr of_int e \<le> v" and "v < 2 powr (of_int e + 1)"
  shows "ulp v = 2 powr (of_int e - 52)"
proof -
  have "0 < v" using assms(2) powr_gt_zero [of 2 "of_int e"] by linarith
  then have "\<lfloor>log 2 v\<rfloor> = e"
    using assms(2,3) by (simp add: floor_log_eq_powr_iff)
  then show ?thesis using assms(1) by (simp add: ulp_def max_def)
qed

lemma ulp_subnormal:
  assumes "0 < v" and "v < 2 powr (- 1022)"
  shows "ulp v = 2 powr (- 1074)"
proof -
  have "log 2 v < - 1022"
    using assms by (simp add: log_less_iff)
  then have "\<lfloor>log 2 v\<rfloor> < - 1022" by linarith
  then show ?thesis by (simp add: ulp_def max_def)
qed

lemma ulp_pos: "0 < ulp v"
  by (simp add: ulp_def)

lemma round_even_zero [simp]: "round_even 0 = 0"
  using round_even_of_int [of 0] by simp

lemma round_mag_zero [simp]: "round_mag 0 = 0"
  by (simp add: round_mag_def)

lemma round_mag_ulp:
  assumes "ulp v = u" and "v = of_int k * u"
  shows "round_mag v = v"
proof -
  have "0 < u" using ulp_pos [of v] assms(1) by simp
  then have "v / u = of_int k" using assms(2) by simp
  then have "round_even (v / u) = k" by simp
  then have "round_mag v = u * of_int k"
    by (simp add: round_mag_def assms(1))
  then show ?thesis by (simp add: assms(2) mult.commute)
qed

lemma round_mag_grid:
  fixes e k :: int
  assumes "- 1022 \<le> e" and "2 powr of_int e \<le> v" and "v < 2 powr (of_int e + 1)"
    and "v = of_int k * 2 powr (of_int e - 52)"
  shows "round_mag v = v"
  using ulp_eq [OF assms(1-3)] assms(4) by (rule round_mag_ulp)

lemma diff_le_of_squares:
  fixes t x c d :: real
  assumes "0 < c" and "c \<le> t" and "c \<le> x" and "\<bar>t * t - x * x\<bar> \<le> 2 * c * d"
  shows "\<bar>t - x\<bar> \<le> d"
proof -
  have p: "0 < t + x" using assms by linarith
  have "\<bar>t - x\<bar> * (t + x) = \<bar>t * t - x * x\<bar>"
  proof -
    have "t * t - x * x = (t - x) * (t + x)" by (simp add: algebra_simps)
    then show ?thesis using p by (simp add: abs_mult)
  qed
  then have a: "\<bar>t - x\<bar> * (t + x) \<le> 2 * c * d" using assms(4) by simp
  have "\<bar>t - x\<bar> * (2 * c) \<le> \<bar>t - x\<bar> * (t + x)"
    using assms(2,3) by (intro mult_left_mono) auto
  with a have "\<bar>t - x\<bar> * (2 * c) \<le> 2 * c * d" by linarith
  then have "(2 * c) * \<bar>t - x\<bar> \<le> (2 * c) * d" by (simp add: mult.commute)
  moreover have "0 < 2 * c" using assms(1) by simp
  ultimately show ?thesis by (rule mult_left_le_imp_le)
qed

lemma ge_of_square_ge:
  fixes t c :: real
  assumes "0 \<le> t" and "0 \<le> c" and "c * c \<le> t * t"
  shows "c \<le> t"
proof (rule ccontr)
  assume "\<not> c \<le> t"
  then have "t < c" by simp
  then have "t * t < c * c" using assms(1) by (intro mult_strict_mono') auto
  then show False using assms(3) by simp
qed

lemma sqrt_round_square_core:
  fixes u t x B :: real
  assumes u: "0 < u" and t: "0 \<le> t" and B: "1 \<le> B"
    and x: "B * u \<le> x" "x \<le> (2 * B - 1) * u"
    and r: "x * x < 2 * (B * u) * (B * u)
              \<and> (B * u) * (B * u) \<le> t * t
              \<and> \<bar>t * t - x * x\<bar> \<le> (B * u) * u / 2
            \<or> 2 * (B * u) * (B * u) \<le> x * x
              \<and> 2 * (B * u) * (B * u) \<le> t * t
              \<and> \<bar>t * t - x * x\<bar> \<le> (B * u) * u"
  shows "B * u \<le> t \<and> t < 2 * B * u \<and> \<bar>t - x\<bar> \<le> 5 * u / 14"
proof -
  define P where "P = B * u"
  have P: "0 < P" using u B by (simp add: P_def)
  have xP: "P \<le> x" using x(1) by (simp add: P_def)
  have r': "x * x < 2 * P * P \<and> P * P \<le> t * t \<and> \<bar>t * t - x * x\<bar> \<le> P * u / 2
            \<or> 2 * P * P \<le> x * x \<and> 2 * P * P \<le> t * t \<and> \<bar>t * t - x * x\<bar> \<le> P * u"
    using r unfolding P_def .
  have PP: "0 < P * P" using P by simp
  have d: "\<bar>t - x\<bar> \<le> 5 * u / 14"
    using r'
  proof (elim disjE conjE)
    assume a: "P * P \<le> t * t" "\<bar>t * t - x * x\<bar> \<le> P * u / 2"
    have "P \<le> t" using t P a(1) by (meson ge_of_square_ge less_imp_le order_trans)
    moreover have "\<bar>t * t - x * x\<bar> \<le> 2 * P * (u / 4)"
      using a(2) by simp
    ultimately have "\<bar>t - x\<bar> \<le> u / 4"
      using xP P by (meson diff_le_of_squares)
    then show ?thesis using u by linarith
  next
    assume a: "2 * P * P \<le> x * x" "2 * P * P \<le> t * t" "\<bar>t * t - x * x\<bar> \<le> P * u"
    define c where "c = 7 * P / 5"
    have c0: "0 < c" using P by (simp add: c_def)
    have "c * c = 49 / 25 * (P * P)" by (simp add: c_def)
    also have "\<dots> \<le> 2 * (P * P)" using PP by simp
    finally have c: "c * c \<le> 2 * P * P" by simp
    have "c \<le> t" using t c0 c a(2) by (meson ge_of_square_ge less_imp_le order_trans)
    moreover have "c \<le> x"
    proof -
      have "0 \<le> x" using xP P by linarith
      then show ?thesis using c0 c a(1) by (meson ge_of_square_ge less_imp_le order_trans)
    qed
    moreover have "\<bar>t * t - x * x\<bar> \<le> 2 * c * (5 * u / 14)"
      using a(3) by (simp add: c_def)
    ultimately show ?thesis
      using c0 by (meson diff_le_of_squares)
  qed
  have t1: "P \<le> t"
    using r'
  proof (elim disjE conjE)
    assume "P * P \<le> t * t"
    then show ?thesis using t P by (meson ge_of_square_ge less_imp_le order_trans)
  next
    assume "2 * P * P \<le> t * t"
    then have "P * P \<le> t * t" using PP by linarith
    then show ?thesis using t P by (meson ge_of_square_ge less_imp_le order_trans)
  qed
  have "x \<le> 2 * P - u" using x(2) by (simp add: P_def algebra_simps)
  then have t2: "t < 2 * P" using d u by linarith
  show ?thesis using t1 t2 d by (simp add: P_def)
qed

lemma round_mag_err:
  "\<bar>round_mag v - v\<bar> \<le> ulp v / 2"
proof -
  have "round_mag v - v = ulp v * (of_int (round_even (v / ulp v)) - v / ulp v)"
    using ulp_pos [of v] by (simp add: round_mag_def algebra_simps)
  then have "\<bar>round_mag v - v\<bar> = ulp v * \<bar>of_int (round_even (v / ulp v)) - v / ulp v\<bar>"
    using ulp_pos [of v] by (simp add: abs_mult)
  also have "\<dots> \<le> ulp v * (1 / 2)"
    using round_even_err [of "v / ulp v"] ulp_pos [of v] by (intro mult_left_mono) auto
  finally show ?thesis by simp
qed

lemma round_mag_ge:
  assumes "of_int n * ulp v \<le> v"
  shows "of_int n * ulp v \<le> round_mag v"
proof -
  have "of_int n \<le> v / ulp v" using assms ulp_pos [of v] by (simp add: field_simps)
  then have "n \<le> round_even (v / ulp v)" by (rule round_even_ge)
  then have "(of_int n :: real) \<le> of_int (round_even (v / ulp v))" by simp
  then show ?thesis using ulp_pos [of v] by (simp add: round_mag_def mult.commute)
qed

lemma round_mag_nonneg: "0 \<le> v \<Longrightarrow> 0 \<le> round_mag v"
  using round_mag_ge [of 0 v] by simp

lemma pow2_split: "(2::real) powr (of_int e) = 2 ^ 52 * 2 powr (of_int e - 52)"
proof -
  have "(2::real) powr (of_int e) = 2 powr (52 + (of_int e - 52))" by simp
  also have "\<dots> = 2 powr 52 * 2 powr (of_int e - 52)" by (simp only: powr_add)
  finally show ?thesis by simp
qed

lemma round_mag_sqrt_square:
  assumes x0: "0 \<le> x" and rep: "round_mag x = x" and big: "2 powr (- 1022) \<le> x * x"
  shows "round_mag (sqrt (round_mag (x * x))) = x"
proof -
  have xpos: "0 < x"
  proof (rule ccontr)
    assume "\<not> 0 < x"
    then have "x = 0" using x0 by simp
    then show False using big by (simp add: not_le)
  qed
  define e where "e = \<lfloor>log 2 x\<rfloor>"
  define P where "P = (2::real) powr (of_int e)"
  define u where "u = (2::real) powr (of_int e - 52)"
  have P: "0 < P" by (simp add: P_def)
  have u: "0 < u" by (simp add: u_def)
  have Pu: "P = 2 ^ 52 * u" unfolding P_def u_def by (rule pow2_split)
  have xb: "P \<le> x" "x < 2 * P"
  proof -
    have "2 powr (of_int e) \<le> x \<and> x < 2 powr (of_int (e + 1))"
      using floor_log_eq_powr_iff [of x 2 e] xpos by (simp add: e_def)
    then show "P \<le> x" "x < 2 * P" by (simp_all add: P_def powr_add)
  qed
  have e_big: "- 511 \<le> e"
  proof (rule ccontr)
    assume "\<not> - 511 \<le> e"
    then have "e + 1 \<le> - 511" by simp
    then have "(of_int (e + 1) :: real) \<le> of_int (- 511)" by (simp only: of_int_le_iff)
    then have "(of_int (e + 1) :: real) \<le> - 511" by simp
    then have "2 powr (of_int (e + 1)) \<le> (2::real) powr (- 511)"
      by (rule powr_mono) simp
    then have x511: "x < 2 powr (- 511)" using xb(2) by (simp add: P_def powr_add)
    have "x * x < 2 powr (- 511) * 2 powr (- 511)"
      using x511 xpos by (intro mult_strict_mono) auto
    also have "\<dots> = 2 powr (- 1022)" by (simp flip: powr_add)
    finally show False using big by simp
  qed
  have ux: "ulp x = u"
    unfolding u_def using e_big xb by (intro ulp_eq) (simp_all add: P_def powr_add)
  define k where "k = round_even (x / u)"
  have xk: "x = of_int k * u"
    using rep by (simp add: round_mag_def ux k_def mult.commute)
  have k1: "B52 \<le> of_int k" if "B52 = (2 ^ 52 :: real)" for B52
  proof -
    have "2 ^ 52 * u \<le> of_int k * u" using xb(1) Pu xk by simp
    then show ?thesis using u that by simp
  qed
  have k2: "of_int k \<le> (2 * 2 ^ 52 - 1 :: real)"
  proof -
    have "of_int k * u < (2 * 2 ^ 52) * u" using xb(2) Pu xk by simp
    then have "(of_int k :: real) < 2 * 2 ^ 52" using u by simp
    then have "(of_int k :: real) < of_int (2 * 2 ^ 52)" by simp
    then have "k < 2 * 2 ^ 52" by (simp only: of_int_less_iff)
    then have "k \<le> 2 * 2 ^ 52 - 1" by simp
    then have "(of_int k :: real) \<le> of_int (2 * 2 ^ 52 - 1)" by (simp only: of_int_le_iff)
    then show ?thesis by simp
  qed
  have x2: "x \<le> (2 * 2 ^ 52 - 1) * u" using k2 u xk by simp
  define s where "s = x * x"
  define r where "r = round_mag s"
  define t where "t = sqrt r"
  have PP: "(2::real) powr (2 * of_int e) = P * P"
    by (simp add: P_def flip: powr_add)
  have sb: "P * P \<le> s" "s < 4 * (P * P)"
  proof -
    show "P * P \<le> s" unfolding s_def using xb(1) P by (intro mult_mono) auto
    have "x * x < (2 * P) * (2 * P)" using xb(2) xpos by (intro mult_strict_mono) auto
    then show "s < 4 * (P * P)" by (simp add: s_def)
  qed
  have spos: "0 < s" using sb(1) mult_pos_pos [OF P P] by linarith
  have rt: "0 \<le> r" unfolding r_def using spos by (intro round_mag_nonneg) simp
  have tt: "t * t = r" "0 \<le> t" using rt by (simp_all add: t_def)
  have core: "x * x < 2 * (2 ^ 52 * u) * (2 ^ 52 * u)
              \<and> (2 ^ 52 * u) * (2 ^ 52 * u) \<le> t * t
              \<and> \<bar>t * t - x * x\<bar> \<le> (2 ^ 52 * u) * u / 2
            \<or> 2 * (2 ^ 52 * u) * (2 ^ 52 * u) \<le> x * x
              \<and> 2 * (2 ^ 52 * u) * (2 ^ 52 * u) \<le> t * t
              \<and> \<bar>t * t - x * x\<bar> \<le> (2 ^ 52 * u) * u"
  proof (cases "s < 2 * (P * P)")
    case True
    have "ulp s = 2 powr (of_int (2 * e) - 52)"
      using e_big sb(1) True by (intro ulp_eq) (simp_all add: PP powr_add)
    also have "\<dots> = P * u"
    proof -
      have "of_int (2 * e) - 52 = of_int e + (of_int e - 52 :: real)" by simp
      then show ?thesis by (simp only: powr_add P_def u_def)
    qed
    finally have us: "ulp s = P * u" .
    have "\<bar>r - s\<bar> \<le> P * u / 2" unfolding r_def using round_mag_err [of s] us by simp
    moreover have "P * P \<le> r"
    proof -
      have "of_int (2 ^ 52) * ulp s \<le> s" using sb(1) us Pu by simp
      then have "of_int (2 ^ 52) * ulp s \<le> round_mag s" by (rule round_mag_ge)
      then show ?thesis using us Pu by (simp add: r_def)
    qed
    ultimately show ?thesis using True tt(1) by (simp add: s_def Pu)
  next
    case False
    then have s2: "2 * (P * P) \<le> s" by simp
    have "ulp s = 2 powr (of_int (2 * e + 1) - 52)"
      using e_big s2 sb(2) by (intro ulp_eq) (simp_all add: PP powr_add)
    also have "\<dots> = 2 * (P * u)"
    proof -
      have "of_int (2 * e + 1) - 52 = 1 + (of_int e + (of_int e - 52 :: real))" by simp
      then show ?thesis by (simp only: powr_add P_def u_def) simp
    qed
    finally have us: "ulp s = 2 * (P * u)" .
    have "\<bar>r - s\<bar> \<le> P * u" unfolding r_def using round_mag_err [of s] us by simp
    moreover have "2 * (P * P) \<le> r"
    proof -
      have "of_int (2 ^ 52) * ulp s \<le> s" using s2 us Pu by simp
      then have "of_int (2 ^ 52) * ulp s \<le> round_mag s" by (rule round_mag_ge)
      then show ?thesis using us Pu by (simp add: r_def)
    qed
    ultimately show ?thesis using s2 tt(1) by (simp add: s_def Pu)
  qed
  have res: "2 ^ 52 * u \<le> t \<and> t < 2 * 2 ^ 52 * u \<and> \<bar>t - x\<bar> \<le> 5 * u / 14"
    using u tt(2) _ _ x2 core
  proof (rule sqrt_round_square_core)
    show "(1::real) \<le> 2 ^ 52" by simp
    show "2 ^ 52 * u \<le> x" using xb(1) Pu by simp
  qed
  have tb: "P \<le> t" "t < 2 * P" using res Pu by simp_all
  have ut: "ulp t = u"
    unfolding u_def using e_big tb by (intro ulp_eq) (simp_all add: P_def powr_add)
  have "\<bar>t / u - of_int k\<bar> = \<bar>t - x\<bar> / u"
    using u by (simp add: xk field_simps abs_if)
  also have "\<dots> \<le> (5 * u / 14) / u"
  proof -
    have "\<bar>t - x\<bar> \<le> 5 * u / 14" using res by simp
    then show ?thesis using u by (intro divide_right_mono) auto
  qed
  also have "\<dots> < 1 / 2" using u by simp
  finally have "round_even (t / u) = k" by (rule round_even_unique)
  then have "round_mag t = x" by (simp add: round_mag_def ut xk mult.commute)
  then show ?thesis by (simp add: t_def r_def s_def)
qed

lemma round_even_le:
  assumes "y \<le> of_int k"
  shows "round_even y \<le> k"
proof -
  have f: "\<lfloor>y\<rfloor> \<le> k" using assms by (metis floor_mono floor_of_int)
  show ?thesis
  proof (cases "\<lfloor>y\<rfloor> = k")
    case True
    then have "y = of_int k" using assms by linarith
    then show ?thesis by simp
  next
    case False
    then have "\<lfloor>y\<rfloor> + 1 \<le> k" using f by simp
    then show ?thesis unfolding round_even_def Let_def by auto
  qed
qed

lemma round_mag_ge_pow2:
  fixes e :: int
  assumes "- 1022 \<le> e" and "2 powr (of_int e) \<le> v"
  shows "2 powr (of_int e) \<le> round_mag v"
proof -
  have v: "0 < v" using assms(2) powr_gt_zero [of 2 "of_int e"] by linarith
  define e' where "e' = \<lfloor>log 2 v\<rfloor>"
  have b: "2 powr (of_int e') \<le> v" "v < 2 powr (of_int e' + 1)"
    using floor_log_eq_powr_iff [of v 2 e'] v by (simp_all add: e'_def)
  have "of_int e \<le> log 2 v" using assms(2) v by (simp add: le_log_iff)
  then have ee: "e \<le> e'" by (simp add: e'_def le_floor_iff)
  then have "- 1022 \<le> e'" using assms(1) by simp
  then have u: "ulp v = 2 powr (of_int e' - 52)" using b by (rule ulp_eq)
  have "of_int (2 ^ 52) * ulp v = 2 powr (of_int e')"
    unfolding u using pow2_split [of e'] by simp
  then have "2 powr (of_int e') \<le> round_mag v"
    using round_mag_ge [of "2 ^ 52" v] b(1) by simp
  moreover have "(2::real) powr (of_int e) \<le> 2 powr (of_int e')"
    using ee by (intro powr_mono) simp_all
  ultimately show ?thesis by linarith
qed

lemma round_mag_idem:
  assumes "0 \<le> v"
  shows "round_mag (round_mag v) = round_mag v"
proof (cases "v = 0")
  case True
  then show ?thesis by simp
next
  case False
  then have v: "0 < v" using assms by simp
  define e0 where "e0 = \<lfloor>log 2 v\<rfloor>"
  define e where "e = max e0 (- 1022)"
  define u where "u = (2::real) powr (of_int e - 52)"
  define n where "n = round_even (v / u)"
  define r where "r = round_mag v"
  have u: "0 < u" by (simp add: u_def)
  have uv: "ulp v = u" by (simp add: ulp_def u_def e_def e0_def)
  have r: "r = of_int n * u" by (simp add: r_def round_mag_def uv n_def mult.commute)
  have e: "- 1022 \<le> e" by (simp add: e_def)
  have P: "2 powr (of_int e) = 2 ^ 52 * u" unfolding u_def by (rule pow2_split)
  have P1: "2 powr (of_int (e + 1)) = 2 ^ 53 * u"
  proof -
    have "(2::real) powr (of_int (e + 1)) = 2 * 2 powr (of_int e)" by (simp add: powr_add)
    then show ?thesis using P by simp
  qed
  have b0: "2 powr (of_int e0) \<le> v" "v < 2 powr (of_int e0 + 1)"
    using floor_log_eq_powr_iff [of v 2 e0] v by (simp_all add: e0_def)
  have "(2::real) powr (of_int e0 + 1) \<le> 2 powr (of_int (e + 1))"
    by (intro powr_mono) (simp_all add: e_def)
  then have "v < 2 powr (of_int (e + 1))" using b0(2) by linarith
  then have vlt: "v < 2 ^ 53 * u" by (simp only: P1)
  then have "v / u \<le> of_int (2 ^ 53)" using u by (simp add: field_simps)
  then have n_le: "n \<le> 2 ^ 53" unfolding n_def by (rule round_even_le)
  have "of_int 0 \<le> v / u" using v u by simp
  then have n_ge: "0 \<le> n" unfolding n_def by (rule round_even_ge)
  consider "n = 0" | "n = 2 ^ 53" | "2 ^ 52 \<le> n" "n < 2 ^ 53" | "0 < n" "n < 2 ^ 52"
    using n_le n_ge by linarith
  then have "round_mag r = r"
  proof cases
    case 1
    then show ?thesis by (simp add: r)
  next
    case 2
    then have r2: "r = 2 powr (of_int (e + 1))" using P1 by (simp add: r)
    have "ulp r = 2 powr (of_int (e + 1) - 52)"
      using e by (intro ulp_eq) (simp_all add: r2)
    also have "\<dots> = 2 * u" by (simp add: u_def powr_diff powr_add)
    finally have "ulp r = 2 * u" .
    moreover have "r = of_int (2 ^ 52) * (2 * u)" using 2 by (simp add: r)
    ultimately show ?thesis by (rule round_mag_ulp)
  next
    case 3
    have "(2 ^ 52 :: real) \<le> of_int n"
      using 3(1) by (metis of_int_le_iff of_int_numeral of_int_power)
    then have a: "2 powr (of_int e) \<le> r" using u by (simp add: r P)
    have "(of_int n :: real) < 2 ^ 53"
      using 3(2) by (metis of_int_less_iff of_int_numeral of_int_power)
    then have b: "r < 2 powr (of_int e + 1)" using u P1 by (simp add: r)
    have "ulp r = 2 powr (of_int e - 52)" using e a b by (rule ulp_eq)
    then have "ulp r = u" by (simp add: u_def)
    then show ?thesis using r by (rule round_mag_ulp)
  next
    case 4
    have lt: "(of_int n :: real) < 2 ^ 52"
      using 4(2) by (metis of_int_less_iff of_int_numeral of_int_power)
    have "e0 < - 1022"
    proof (rule ccontr)
      assume "\<not> e0 < - 1022"
      then have "e = e0" by (simp add: e_def)
      then have "2 ^ 52 * u \<le> v" using b0(1) P by simp
      then have "of_int (2 ^ 52) \<le> v / u" using u by (simp add: field_simps)
      then have "2 ^ 52 \<le> n" unfolding n_def by (rule round_even_ge)
      then show False using 4(2) by simp
    qed
    then have e2: "e = - 1022" by (simp add: e_def)
    have rpos: "0 < r" using 4(1) u by (simp add: r)
    have "r < 2 powr (of_int e)" using lt u by (simp add: r P)
    then have "r < 2 powr (- 1022)" by (simp add: e2)
    then have "ulp r = 2 powr (- 1074)" using rpos by (intro ulp_subnormal)
    then have "ulp r = u" by (simp add: u_def e2)
    then show ?thesis using r by (rule round_mag_ulp)
  qed
  then show ?thesis by (simp add: r_def)
qed

lemma round_mag_double:
  assumes "0 \<le> v" and "round_mag v = v"
  shows "round_mag (2 * v) = 2 * v"
proof (cases "v = 0")
  case True
  then show ?thesis by simp
next
  case False
  then have v: "0 < v" using assms by simp
  define e0 where "e0 = \<lfloor>log 2 v\<rfloor>"
  define k where "k = round_even (v / ulp v)"
  have vk: "v = of_int k * ulp v"
    using assms(2) by (simp add: round_mag_def k_def mult.commute)
  have l: "\<lfloor>log 2 (2 * v)\<rfloor> = e0 + 1"
  proof -
    have "log 2 (2 * v) = 1 + log 2 v" using v by (simp add: log_mult)
    then show ?thesis by (simp add: e0_def)
  qed
  show ?thesis
  proof (cases "- 1022 \<le> e0")
    case True
    have "ulp v = 2 powr (of_int (max e0 (- 1022)) - 52)" by (simp add: ulp_def e0_def)
    then have uv: "ulp v = 2 powr (of_int e0 - 52)" using True by (simp add: max_def)
    have "ulp (2 * v) = 2 powr (of_int (max (e0 + 1) (- 1022)) - 52)"
      unfolding ulp_def l ..
    then have "ulp (2 * v) = 2 powr (1 + (of_int e0 - 52))" using True by (simp add: max_def)
    also have "\<dots> = 2 * ulp v" unfolding uv by (simp only: powr_add) simp
    finally have "ulp (2 * v) = 2 * ulp v" .
    moreover have "2 * v = of_int k * (2 * ulp v)" using vk by simp
    ultimately show ?thesis by (rule round_mag_ulp)
  next
    case False
    have "ulp v = 2 powr (of_int (max e0 (- 1022)) - 52)" by (simp add: ulp_def e0_def)
    moreover have "ulp (2 * v) = 2 powr (of_int (max (e0 + 1) (- 1022)) - 52)"
      unfolding ulp_def l ..
    ultimately have "ulp (2 * v) = ulp v" using False by (simp add: max_def)
    moreover have "2 * v = of_int (2 * k) * ulp v" using vk by simp
    ultimately show ?thesis by (rule round_mag_ulp)
  qed
qed

section \<open>Facts about vector addition in double precision\<close>

lemma fadd_commute: "fadd x y = fadd y x"
  by (cases x; cases y) (auto simp: Let_def add.commute)

lemma float_error_eq: "(e :: float_error) = e'"
  by (cases e; cases e') simp

lemma Vector_add_double_commute: "Vector_add_double a b = Vector_add_double b a"
  unfolding Vector_add_double_def
  by (auto simp: Let_def fadd_commute float_error_eq split: sum.splits)

lemma round_mag_one [simp]: "round_mag 1 = 1"
proof -
  have "ulp 1 = 2 powr (of_int 0 - 52)" by (intro ulp_eq) simp_all
  moreover have "(1::real) = of_int (2 ^ 52) * 2 powr (of_int 0 - 52)"
    by (simp add: powr_minus powr_numeral divide_simps flip: powr_realpow)
  ultimately show ?thesis by (rule round_mag_ulp)
qed

lemma round_double_is_double: "is_double a \<Longrightarrow> round_double s a = Num s a"
  by (simp add: round_double_def is_double_def Let_def)

lemma math_cos_zero: "math_cos (Num s 0) = Inr (Num False 1)"
  by (simp add: signed_real_def double_of_real_def round_double_def Let_def)

lemma math_sin_zero: "math_sin (Num s 0) = Inr (Num s 0)"
  by simp

lemma horizontal_component_double_zero:
  assumes "is_double p"
  shows "horizontal_component_double \<lparr>direction_double = Num False 0, magnitude_double = Num s p\<rparr>
         = Inr (Num s p)"
  using assms
  by (simp add: horizontal_component_double_def math_cos_zero round_double_is_double
      del: math_cos.simps)

lemma vertical_component_double_zero:
  "vertical_component_double \<lparr>direction_double = Num False 0, magnitude_double = Num s p\<rparr>
   = Inr (Num s 0)"
  by (simp add: vertical_component_double_def round_double_def Let_def)

lemma pow2_1024: "(2::real) powr (of_int 1024) = 2 ^ 1024"
  by (simp add: powr_numeral)

lemma round_mag_finite_imp:
  assumes "0 \<le> X" and "round_mag (X * X) < 2 ^ 1024"
  shows "X < 2 ^ 1024"
proof (rule ccontr)
  assume "\<not> X < 2 ^ 1024"
  then have X: "2 ^ 1024 \<le> X" by simp
  have "(1::real) \<le> 2 ^ 1024" by simp
  then have "1 \<le> X" using X by linarith
  then have "X * 1 \<le> X * X" using assms(1) by (intro mult_left_mono) auto
  then have "X \<le> X * X" by simp
  then have "2 ^ 1024 \<le> X * X" using X by linarith
  then have "2 powr (of_int 1024) \<le> X * X" by (simp only: pow2_1024)
  then have "2 powr (of_int 1024) \<le> round_mag (X * X)"
    by (intro round_mag_ge_pow2) simp_all
  then show False using assms(2) by (simp add: pow2_1024)
qed

lemma Vector_add_double_collinear:
  assumes p: "is_double p" and q: "is_double q"
    and X: "X = round_mag (p + q)"
    and lo: "2 powr (- 1022) \<le> X * X"
    and hi: "round_mag (X * X) < 2 ^ 1024"
  shows "Vector_add_double
           \<lparr>direction_double = Num False 0, magnitude_double = Num False p\<rparr>
           \<lparr>direction_double = Num False 0, magnitude_double = Num False q\<rparr>
         = Inr \<lparr>direction_double = Num False 0, magnitude_double = Num False X\<rparr>"
proof -
  define R where "R = round_mag (X * X)"
  have pq: "0 \<le> p + q" using p q by (simp add: is_double_def)
  have X0: "0 \<le> X" unfolding X using pq by (rule round_mag_nonneg)
  have Xrep: "round_mag X = X" unfolding X using pq by (rule round_mag_idem)
  have Xlt: "X < 2 ^ 1024" using X0 hi by (rule round_mag_finite_imp)
  have Xne: "X \<noteq> 0" using lo by (auto simp: not_le)
  then have pqne: "p + q \<noteq> 0" using X by auto
  have x: "fadd (Num False p) (Num False q) = Num False X"
    using pqne pq Xlt by (simp add: signed_real_def double_of_real_def round_double_def Let_def X)
  have y: "fadd (Num False 0) (Num False 0) = Num False 0"
    by (simp add: signed_real_def)
  have xx: "fmul (Num False X) (Num False X) = Num False R"
    using hi by (simp add: round_double_def Let_def R_def)
  have yy: "fmul (Num False 0) (Num False 0) = Num False 0"
    by (simp add: round_double_def Let_def)
  have "2 powr (of_int (- 1022)) \<le> round_mag (X * X)"
    using lo by (intro round_mag_ge_pow2) simp_all
  then have Rpos: "0 < R"
    unfolding R_def using powr_gt_zero [of 2 "of_int (- 1022)"] by linarith
  have Rrep: "round_mag R = R" unfolding R_def by (intro round_mag_idem) simp
  have s: "fadd (Num False R) (Num False 0) = Num False R"
    using Rpos Rrep hi
    by (simp add: signed_real_def double_of_real_def round_double_def Let_def R_def)
  have "round_mag (sqrt R) = X"
    unfolding R_def using X0 Xrep lo by (rule round_mag_sqrt_square)
  then have m: "math_sqrt (Num False R) = Inr (Num False X)"
    using Rpos Xlt by (simp add: round_double_def Let_def)
  have d: "math_atan2_double (Num False 0) (Num False X) = Num False 0" by simp
  show ?thesis
    unfolding Vector_add_double_def
    by (simp only: horizontal_component_double_zero [OF p] horizontal_component_double_zero [OF q]
        vertical_component_double_zero sum.case Let_def x y xx yy s m d)
qed

lemma Vector_add_double_zero:
  "Vector_add_double
     \<lparr>direction_double = Num False 0, magnitude_double = Num False 0\<rparr>
     \<lparr>direction_double = Num False 0, magnitude_double = Num False 0\<rparr>
   = Inr \<lparr>direction_double = Num False 0, magnitude_double = Num False 0\<rparr>"
  by (simp add: Vector_add_double_def horizontal_component_double_def
      vertical_component_double_def math_cos_zero round_double_def Let_def signed_real_def
      del: math_cos.simps)

lemma Vector_add_double_self:
  assumes m: "is_double m"
    and lo: "2 powr (- 1022) \<le> (2 * m) * (2 * m)"
    and hi: "round_mag ((2 * m) * (2 * m)) < 2 ^ 1024"
  shows "Vector_add_double
           \<lparr>direction_double = Num False 0, magnitude_double = Num False m\<rparr>
           \<lparr>direction_double = Num False 0, magnitude_double = Num False m\<rparr>
         = Inr \<lparr>direction_double = Num False 0, magnitude_double = Num False (2 * m)\<rparr>"
proof -
  have "round_mag (2 * m) = 2 * m"
    using m by (intro round_mag_double) (simp_all add: is_double_def)
  then have "2 * m = round_mag (m + m)" by simp
  then show ?thesis using m m lo hi by (intro Vector_add_double_collinear) auto
qed

lemma is_double_grid:
  fixes e k :: int
  assumes "- 1022 \<le> e" and "e < 1024"
    and "2 powr of_int e \<le> v" and "v < 2 powr (of_int e + 1)"
    and "v = of_int k * 2 powr (of_int e - 52)"
  shows "is_double v"
proof -
  have "round_mag v = v" using assms(1,3,4,5) by (rule round_mag_grid)
  moreover have "0 \<le> v" using assms(3) powr_gt_zero [of 2 "of_int e"] by linarith
  moreover have "v < 2 ^ 1024"
  proof -
    have "(of_int e :: real) + 1 \<le> of_int 1024" using assms(2) by linarith
    then have "(2::real) powr (of_int e + 1) \<le> 2 powr (of_int 1024)"
      by (intro powr_mono) simp_all
    then have "(2::real) powr (of_int e + 1) \<le> 2 ^ 1024" by (simp only: pow2_1024)
    then show ?thesis using assms(4) by linarith
  qed
  ultimately show ?thesis by (simp add: is_double_def)
qed

lemma is_double_1: "is_double 1"
  by (rule is_double_grid [of 0 _ "2 ^ 52"]) (simp_all add: powr_neg_numeral)

lemma is_double_3: "is_double 3"
  by (rule is_double_grid [of 1 _ "3 * 2 ^ 51"]) (simp_all add: powr_neg_numeral)

lemma is_double_2_pow_m53: "is_double (1 / 2 ^ 53)"
  by (rule is_double_grid [of "- 53" _ "2 ^ 52"]) (simp_all add: powr_neg_numeral)

lemma is_double_2_pow_m52: "is_double (1 / 2 ^ 52)"
  by (rule is_double_grid [of "- 52" _ "2 ^ 52"]) (simp_all add: powr_neg_numeral)

lemma is_double_1_plus_ulp: "is_double (1 + 1 / 2 ^ 52)"
  by (rule is_double_grid [of 0 _ "2 ^ 52 + 1"]) (simp_all add: powr_neg_numeral)

lemma is_double_2_pow_512: "is_double (2 ^ 512)"
  by (rule is_double_grid [of 512 _ "2 ^ 52"]) (simp_all add: powr_numeral)

lemma is_double_2_pow_513: "is_double (2 ^ 513)"
  by (rule is_double_grid [of 513 _ "2 ^ 52"]) (simp_all add: powr_numeral)

lemma round_mag_36: "round_mag 36 = 36"
  by (rule round_mag_grid [of 5 _ "9 * 2 ^ 49"]) (simp_all add: powr_neg_numeral)

lemma round_mag_2_pow_1026: "round_mag (2 ^ 1026) = 2 ^ 1026"
  by (rule round_mag_grid [of 1026 _ "2 ^ 52"]) (simp_all add: powr_numeral)

lemma round_mag_2_pow_m104: "round_mag (1 / 2 ^ 104) = 1 / 2 ^ 104"
  by (rule round_mag_grid [of "- 104" _ "2 ^ 52"]) (simp_all add: powr_neg_numeral)

lemma round_mag_tie: "round_mag (1 + 1 / 2 ^ 53) = 1"
proof -
  define v :: real where "v = 1 + 1 / 2 ^ 53"
  have "ulp v = 2 powr (of_int 0 - 52)"
    by (rule ulp_eq) (simp_all add: v_def)
  then have u: "ulp v = 1 / 2 ^ 52" by (simp add: powr_neg_numeral)
  have q: "v / ulp v = of_int (2 ^ 52) + 1 / 2"
    unfolding u by (simp add: v_def)
  have "round_even (of_int (2 ^ 52) + 1 / 2) = 2 ^ 52"
    by (rule round_even_tie_even) simp
  then have "round_mag v = 1"
    unfolding round_mag_def q by (simp add: u)
  then show ?thesis by (simp add: v_def)
qed

lemma overflow_example:
  "Vector_add_double
     \<lparr>direction_double = Num False 0, magnitude_double = Num False (2 ^ 512)\<rparr>
     \<lparr>direction_double = Num False 0, magnitude_double = Num False (2 ^ 512)\<rparr>
   = Inr \<lparr>direction_double = Num False 0, magnitude_double = Infinity False\<rparr>"
proof -
  have x: "fadd (Num False (2 ^ 512)) (Num False (2 ^ 512)) = Num False (2 ^ 513)"
    using round_double_is_double [OF is_double_2_pow_513, of False]
    by (simp add: signed_real_def double_of_real_def)
  have y: "fadd (Num False 0) (Num False 0) = Num False 0"
    by (simp add: signed_real_def)
  have "(2 ^ 513 :: real) * 2 ^ 513 = 2 ^ 1026" by simp
  then have "round_mag (2 ^ 513 * 2 ^ 513) = 2 ^ 1026"
    by (simp only: round_mag_2_pow_1026)
  moreover have "(2 ^ 1024 :: real) \<le> 2 ^ 1026" by simp
  ultimately have "round_double False (2 ^ 513 * 2 ^ 513) = Infinity False"
    by (simp only: round_double_def Let_def if_True)
  then have xx: "fmul (Num False (2 ^ 513)) (Num False (2 ^ 513)) = Infinity False"
    by (simp only: fmul.simps simp_thms)
  have yy: "fmul (Num False 0) (Num False 0) = Num False 0"
    by (simp add: round_double_def Let_def)
  have s: "fadd (Infinity False) (Num False 0) = Infinity False" by simp
  have m: "math_sqrt (Infinity False) = Inr (Infinity False)" by simp
  have d: "math_atan2_double (Num False 0) (Num False (2 ^ 513)) = Num False 0" by simp
  show ?thesis
    unfolding Vector_add_double_def
    by (simp only: horizontal_component_double_zero [OF is_double_2_pow_512]
        vertical_component_double_zero sum.case Let_def x y xx yy s m d)
qed

lemma round_example_left:
  "Vector_add_double
     \<lparr>direction_double = Num False 0, magnitude_double = Num False 1\<rparr>
     \<lparr>direction_double = Num False 0, magnitude_double = Num False (1 / 2 ^ 53)\<rparr>
   = Inr \<lparr>direction_double = Num False 0, magnitude_double = Num False 1\<rparr>"
proof -
  have X: "1 = round_mag (1 + 1 / 2 ^ 53)" by (simp only: round_mag_tie)
  have lo: "2 powr (- 1022) \<le> 1 * (1::real)" by (simp add: powr_neg_numeral)
  have hi: "round_mag (1 * 1) < 2 ^ 1024" by simp
  show ?thesis
    by (rule Vector_add_double_collinear [OF is_double_1 is_double_2_pow_m53 X lo hi])
qed

lemma round_example_inner:
  "Vector_add_double
     \<lparr>direction_double = Num False 0, magnitude_double = Num False (1 / 2 ^ 53)\<rparr>
     \<lparr>direction_double = Num False 0, magnitude_double = Num False (1 / 2 ^ 53)\<rparr>
   = Inr \<lparr>direction_double = Num False 0, magnitude_double = Num False (1 / 2 ^ 52)\<rparr>"
proof -
  have "(1 / 2 ^ 53 + 1 / 2 ^ 53 :: real) = 1 / 2 ^ 52" by simp
  moreover have "round_mag (1 / 2 ^ 52) = 1 / 2 ^ 52"
    using is_double_2_pow_m52 unfolding is_double_def by (elim conjE)
  ultimately have X: "1 / 2 ^ 52 = round_mag (1 / 2 ^ 53 + 1 / 2 ^ 53)" by (simp only:)
  have sq: "(1 / 2 ^ 52 :: real) * (1 / 2 ^ 52) = 1 / 2 ^ 104" by simp
  have lo: "2 powr (- 1022) \<le> (1 / 2 ^ 52 :: real) * (1 / 2 ^ 52)"
    by (simp add: powr_neg_numeral)
  have "(1 / 2 ^ 104 :: real) < 2 ^ 1024" by simp
  then have hi: "round_mag (1 / 2 ^ 52 * (1 / 2 ^ 52)) < 2 ^ 1024"
    by (simp only: sq round_mag_2_pow_m104)
  show ?thesis
    by (rule Vector_add_double_collinear [OF is_double_2_pow_m53 is_double_2_pow_m53 X lo hi])
qed

lemma round_example_right:
  "Vector_add_double
     \<lparr>direction_double = Num False 0, magnitude_double = Num False 1\<rparr>
     \<lparr>direction_double = Num False 0, magnitude_double = Num False (1 / 2 ^ 52)\<rparr>
   = Inr \<lparr>direction_double = Num False 0, magnitude_double = Num False (1 + 1 / 2 ^ 52)\<rparr>"
proof -
  define X :: real where "X = 1 + 1 / 2 ^ 52"
  have X: "X = round_mag (1 + 1 / 2 ^ 52)"
    using is_double_1_plus_ulp by (simp add: is_double_def X_def)
  have b: "1 \<le> X * X" "X * X < 2" by (simp_all add: X_def)
  have lo: "2 powr (- 1022) \<le> X * X"
  proof -
    have "(2::real) powr (- 1022) \<le> 1" by (simp add: powr_neg_numeral)
    then show ?thesis using b(1) by linarith
  qed
  have "ulp (X * X) = 2 powr (of_int 0 - 52)" using b by (intro ulp_eq) simp_all
  then have "ulp (X * X) \<le> 1" by (simp add: powr_neg_numeral)
  then have "round_mag (X * X) < 3" using round_mag_err [of "X * X"] b(2) by linarith
  then have hi: "round_mag (X * X) < 2 ^ 1024" by (rule less_le_trans) simp
  show ?thesis
    using Vector_add_double_collinear [OF is_double_1 is_double_2_pow_m52 X lo hi]
    by (simp only: X_def)
qed

lemma round_mag_pi: "2 \<le> round_mag pi \<and> round_mag pi < 2 ^ 1024"
proof -
  have p: "2 \<le> pi" "pi < 4" using pi_ge_two pi_less_4 by simp_all
  have "2 powr (of_int 1) \<le> round_mag pi"
    using p by (intro round_mag_ge_pow2) simp_all
  then have a: "2 \<le> round_mag pi" by simp
  have "ulp pi = 2 powr (of_int 1 - 52)" using p by (intro ulp_eq) simp_all
  then have "ulp pi \<le> 1" by (simp add: powr_neg_numeral)
  then have "round_mag pi < 5" using round_mag_err [of pi] p(2) by linarith
  then have "round_mag pi < 2 ^ 1024" by (rule less_le_trans) simp
  with a show ?thesis by simp
qed

lemma negative_zero_example:
  "Vector_add_double
     \<lparr>direction_double = Num False 0, magnitude_double = Num True 0\<rparr>
     \<lparr>direction_double = Num False 0, magnitude_double = Num True 0\<rparr>
   = Inr \<lparr>direction_double = Num True (round_mag pi), magnitude_double = Num False 0\<rparr>"
  using round_mag_pi
  by (simp add: Vector_add_double_def horizontal_component_double_def
      vertical_component_double_def math_cos_zero round_double_def Let_def signed_real_def
      del: math_cos.simps)

lemma is_double_2_pow_m600: "is_double (1 / 2 ^ 600)"
  by (rule is_double_grid [of "- 600" _ "2 ^ 52"]) (simp_all add: powr_neg_numeral)

lemma is_double_2_pow_m599: "is_double (1 / 2 ^ 599)"
  by (rule is_double_grid [of "- 599" _ "2 ^ 52"]) (simp_all add: powr_neg_numeral)

lemma round_mag_2_pow_m1198: "round_mag (1 / 2 ^ 1198) = 0"
proof -
  define v :: real where "v = 1 / 2 ^ 1198"
  have "ulp v = 2 powr (- 1074)"
    by (rule ulp_subnormal) (simp_all add: v_def powr_neg_numeral)
  then have u: "ulp v = 1 / 2 ^ 1074" by (simp add: powr_neg_numeral)
  have "\<bar>v / ulp v - of_int 0\<bar> < 1 / 2" unfolding u by (simp add: v_def)
  then have "round_even (v / ulp v) = 0" by (rule round_even_unique)
  then have "round_mag v = 0" by (simp add: round_mag_def)
  then show ?thesis by (simp only: v_def)
qed

lemma underflow_example:
  "Vector_add_double
     \<lparr>direction_double = Num False 0, magnitude_double = Num False (1 / 2 ^ 600)\<rparr>
     \<lparr>direction_double = Num False 0, magnitude_double = Num False (1 / 2 ^ 600)\<rparr>
   = Inr \<lparr>direction_double = Num False 0, magnitude_double = Num False 0\<rparr>"
proof -
  have e: "(1 / 2 ^ 600 + 1 / 2 ^ 600 :: real) = 1 / 2 ^ 599" by simp
  have "double_of_real (1 / 2 ^ 599) = Num False (1 / 2 ^ 599)"
    using round_double_is_double [OF is_double_2_pow_m599, of False]
    by (simp add: double_of_real_def)
  then have "double_of_real (1 / 2 ^ 600 + 1 / 2 ^ 600) = Num False (1 / 2 ^ 599)"
    by (simp only: e)
  then have x: "fadd (Num False (1 / 2 ^ 600)) (Num False (1 / 2 ^ 600)) = Num False (1 / 2 ^ 599)"
    by (simp add: signed_real_def)
  have y: "fadd (Num False 0) (Num False 0) = Num False 0"
    by (simp add: signed_real_def)
  have "(1 / 2 ^ 599 :: real) * (1 / 2 ^ 599) = 1 / 2 ^ 1198" by simp
  then have "round_mag (1 / 2 ^ 599 * (1 / 2 ^ 599)) = 0"
    by (simp only: round_mag_2_pow_m1198)
  then have "round_double False (1 / 2 ^ 599 * (1 / 2 ^ 599)) = Num False 0"
    by (simp add: round_double_def Let_def)
  then have xx: "fmul (Num False (1 / 2 ^ 599)) (Num False (1 / 2 ^ 599)) = Num False 0"
    by (simp only: fmul.simps simp_thms)
  have yy: "fmul (Num False 0) (Num False 0) = Num False 0"
    by (simp add: round_double_def Let_def)
  have m: "math_sqrt (Num False 0) = Inr (Num False 0)" by simp
  have d: "math_atan2_double (Num False 0) (Num False (1 / 2 ^ 599)) = Num False 0" by simp
  show ?thesis
    unfolding Vector_add_double_def
    by (simp only: horizontal_component_double_zero [OF is_double_2_pow_m600]
        vertical_component_double_zero sum.case Let_def x y xx yy m d)
qed

section \<open>The laws of vector addition on doubles\<close>

text \<open>
  Claim C5 says that vector addition is commutative and associative in its components for
  all vectors, and that for every \<open>m \<ge> 0\<close> the vector of direction 0 and magnitude \<open>m\<close>
  added to itself is the vector of direction 0 and magnitude \<open>2 m\<close>. On doubles this fails
  at four inputs, all of direction 0. For \<open>m = 2^512\<close> the square of \<open>2 m\<close> overflows and the
  magnitude of the sum is infinite. For \<open>m = 2^-600\<close> the square underflows and the magnitude
  of the sum is 0. For the negative zero, which is \<open>\<ge> 0\<close> in Python, the direction of the sum
  is \<open>-\<pi>\<close>. And with the magnitudes \<open>a = 1\<close>, \<open>b = c = 2^-53\<close> the horizontal component of
  \<open>(a + b) + c\<close> is 1, because \<open>1 + 2^-53\<close> rounds to 1 twice, while that of \<open>a + (b + c)\<close>
  is \<open>1 + 2^-52\<close>.
\<close>

theorem Vector_add_double_counterexample:
  "Vector_add_double
     \<lparr>direction_double = Num False 0, magnitude_double = Num False (2 ^ 512)\<rparr>
     \<lparr>direction_double = Num False 0, magnitude_double = Num False (2 ^ 512)\<rparr>
   = Inr \<lparr>direction_double = Num False 0, magnitude_double = Infinity False\<rparr>
   \<and> Infinity False \<noteq> Num False (2 * 2 ^ 512)
   \<and> Vector_add_double
       \<lparr>direction_double = Num False 0, magnitude_double = Num False (1 / 2 ^ 600)\<rparr>
       \<lparr>direction_double = Num False 0, magnitude_double = Num False (1 / 2 ^ 600)\<rparr>
     = Inr \<lparr>direction_double = Num False 0, magnitude_double = Num False 0\<rparr>
   \<and> Num False 0 \<noteq> Num False (2 * (1 / 2 ^ 600))
   \<and> (case Vector_add_double
            \<lparr>direction_double = Num False 0, magnitude_double = Num False 1\<rparr>
            \<lparr>direction_double = Num False 0, magnitude_double = Num False (1 / 2 ^ 53)\<rparr> of
         Inl e \<Rightarrow> Inl e
       | Inr ab \<Rightarrow>
           (case Vector_add_double ab
                   \<lparr>direction_double = Num False 0, magnitude_double = Num False (1 / 2 ^ 53)\<rparr> of
              Inl e \<Rightarrow> Inl e
            | Inr abc \<Rightarrow> horizontal_component_double abc))
       = Inr (Num False 1)
   \<and> (case Vector_add_double
            \<lparr>direction_double = Num False 0, magnitude_double = Num False (1 / 2 ^ 53)\<rparr>
            \<lparr>direction_double = Num False 0, magnitude_double = Num False (1 / 2 ^ 53)\<rparr> of
         Inl e \<Rightarrow> Inl e
       | Inr bc \<Rightarrow>
           (case Vector_add_double
                   \<lparr>direction_double = Num False 0, magnitude_double = Num False 1\<rparr> bc of
              Inl e \<Rightarrow> Inl e
            | Inr abc \<Rightarrow> horizontal_component_double abc))
       = Inr (Num False (1 + 1 / 2 ^ 52))
   \<and> Num False 1 \<noteq> Num False (1 + 1 / 2 ^ 52)
   \<and> Vector_add_double
       \<lparr>direction_double = Num False 0, magnitude_double = Num True 0\<rparr>
       \<lparr>direction_double = Num False 0, magnitude_double = Num True 0\<rparr>
     = Inr \<lparr>direction_double = Num True (round_mag pi), magnitude_double = Num False 0\<rparr>
   \<and> 2 \<le> round_mag pi"
proof -
  have l: "(case Vector_add_double
            \<lparr>direction_double = Num False 0, magnitude_double = Num False 1\<rparr>
            \<lparr>direction_double = Num False 0, magnitude_double = Num False (1 / 2 ^ 53)\<rparr> of
         Inl e \<Rightarrow> Inl e
       | Inr ab \<Rightarrow>
           (case Vector_add_double ab
                   \<lparr>direction_double = Num False 0, magnitude_double = Num False (1 / 2 ^ 53)\<rparr> of
              Inl e \<Rightarrow> Inl e
            | Inr abc \<Rightarrow> horizontal_component_double abc))
       = Inr (Num False 1)"
    by (simp only: round_example_left sum.case horizontal_component_double_zero [OF is_double_1])
  have r: "(case Vector_add_double
            \<lparr>direction_double = Num False 0, magnitude_double = Num False (1 / 2 ^ 53)\<rparr>
            \<lparr>direction_double = Num False 0, magnitude_double = Num False (1 / 2 ^ 53)\<rparr> of
         Inl e \<Rightarrow> Inl e
       | Inr bc \<Rightarrow>
           (case Vector_add_double
                   \<lparr>direction_double = Num False 0, magnitude_double = Num False 1\<rparr> bc of
              Inl e \<Rightarrow> Inl e
            | Inr abc \<Rightarrow> horizontal_component_double abc))
       = Inr (Num False (1 + 1 / 2 ^ 52))"
    by (simp only: round_example_inner round_example_right sum.case
        horizontal_component_double_zero [OF is_double_1_plus_ulp])
  have n: "Num False 1 \<noteq> Num False (1 + 1 / 2 ^ 52)" by simp
  have i: "Infinity False \<noteq> Num False (2 * 2 ^ 512)" by simp
  have z: "Num False 0 \<noteq> Num False (2 * (1 / 2 ^ 600))" by simp
  have p: "2 \<le> round_mag pi" using round_mag_pi by (rule conjunct1)
  show ?thesis
    by (intro conjI overflow_example i underflow_example z l r n negative_zero_example p)
qed

text \<open>
  Claim C5, as the code has it. Vector addition on doubles is commutative: \<open>a + b\<close> and
  \<open>b + a\<close> are the same vector, component for component, or both raise \<^verbatim>\<open>ValueError\<close>.
  Associativity is not claimed: it holds for the exact real values only. For every
  double \<open>m \<ge> 0\<close> other than the negative zero for which the square of \<open>2 m\<close> neither
  underflows (it is at least \<open>2^-1022\<close>) nor overflows (it rounds to a finite double), the
  vector of direction 0 and magnitude \<open>m\<close> added to itself is the vector of direction 0
  and magnitude \<open>2 m\<close>; so it is for \<open>m = +0\<close>.
\<close>

theorem Vector_add_double_laws:
  "Vector_add_double a b = Vector_add_double b a
   \<and> (case Vector_add_double a b of Inl e \<Rightarrow> Inl e | Inr v \<Rightarrow> horizontal_component_double v)
       = (case Vector_add_double b a of Inl e \<Rightarrow> Inl e | Inr v \<Rightarrow> horizontal_component_double v)
   \<and> (case Vector_add_double a b of Inl e \<Rightarrow> Inl e | Inr v \<Rightarrow> vertical_component_double v)
       = (case Vector_add_double b a of Inl e \<Rightarrow> Inl e | Inr v \<Rightarrow> vertical_component_double v)
   \<and> (is_double m \<and> 2 powr (- 1022) \<le> (2 * m) * (2 * m)
        \<and> round_mag ((2 * m) * (2 * m)) < 2 ^ 1024 \<longrightarrow>
      Vector_add_double
        \<lparr>direction_double = Num False 0, magnitude_double = Num False m\<rparr>
        \<lparr>direction_double = Num False 0, magnitude_double = Num False m\<rparr>
      = Inr \<lparr>direction_double = Num False 0, magnitude_double = Num False (2 * m)\<rparr>)
   \<and> Vector_add_double
       \<lparr>direction_double = Num False 0, magnitude_double = Num False 0\<rparr>
       \<lparr>direction_double = Num False 0, magnitude_double = Num False 0\<rparr>
     = Inr \<lparr>direction_double = Num False 0, magnitude_double = Num False 0\<rparr>"
proof -
  have c: "Vector_add_double a b = Vector_add_double b a" by (rule Vector_add_double_commute)
  show ?thesis
    unfolding c using Vector_add_double_self [of m] Vector_add_double_zero by blast
qed

theorem Vector_add_double_laws_witness:
  "is_double 3 \<and> 2 powr (- 1022) \<le> (2 * 3) * (2 * 3 :: real)
   \<and> round_mag ((2 * 3) * (2 * 3)) < 2 ^ 1024
   \<and> Vector_add_double
       \<lparr>direction_double = Num False 0, magnitude_double = Num False 3\<rparr>
       \<lparr>direction_double = Num False 0, magnitude_double = Num False 3\<rparr>
     = Inr \<lparr>direction_double = Num False 0, magnitude_double = Num False (2 * 3)\<rparr>"
proof -
  have lo: "2 powr (- 1022) \<le> (2 * 3) * (2 * 3 :: real)" by (simp add: powr_neg_numeral)
  have "(2 * 3) * (2 * 3 :: real) = 36" by simp
  then have "round_mag ((2 * 3) * (2 * 3)) = 36" by (simp only: round_mag_36)
  then have hi: "round_mag ((2 * 3) * (2 * 3)) < 2 ^ 1024" by simp
  from Vector_add_double_laws
    [of "\<lparr>direction_double = Num False 0, magnitude_double = Num False 3\<rparr>"
        "\<lparr>direction_double = Num False 0, magnitude_double = Num False 3\<rparr>" 3]
    is_double_3 lo hi
  show ?thesis by blast
qed

section \<open>Facts about the ship\<close>

lemma update_position_fields [simp]:
  "velocity (update_position s dt) = velocity s"
  "orientation (update_position s dt) = orientation s"
  "throttle (update_position s dt) = throttle s"
  "rotation (update_position s dt) = rotation s"
  "fuel (update_position s dt) = fuel s"
  by (simp_all add: update_position_def split: prod.splits)

lemma update_gravity_fields [simp]:
  "position (update_gravity s dt) = position s"
  "orientation (update_gravity s dt) = orientation s"
  "throttle (update_gravity s dt) = throttle s"
  "rotation (update_gravity s dt) = rotation s"
  "fuel (update_gravity s dt) = fuel s"
  by (simp_all add: update_gravity_def)

lemma update_orientation_fields [simp]:
  "position (update_orientation s dt) = position s"
  "velocity (update_orientation s dt) = velocity s"
  "throttle (update_orientation s dt) = throttle s"
  "rotation (update_orientation s dt) = rotation s"
  "fuel (update_orientation s dt) = fuel s"
  by (simp_all add: update_orientation_def Let_def)

lemma burn_fuel_fuel:
  "fuel (snd (burn_fuel s dt)) =
     (if throttle s * THROTTLE_MAX * dt > fuel s then 0 else fuel s - throttle s * THROTTLE_MAX * dt)"
  by (simp add: burn_fuel_def Let_def)

lemma burn_fuel_throttle:
  "throttle (snd (burn_fuel s dt)) =
     (if throttle s * THROTTLE_MAX * dt > fuel s then 0 else throttle s)"
  by (simp add: burn_fuel_def Let_def)

lemma burn_fuel_burned:
  "fst (burn_fuel s dt) =
     (if throttle s * THROTTLE_MAX * dt > fuel s then fuel s else throttle s * THROTTLE_MAX * dt)"
  by (simp add: burn_fuel_def Let_def)

lemma burn_fuel_other [simp]:
  "position (snd (burn_fuel s dt)) = position s"
  "velocity (snd (burn_fuel s dt)) = velocity s"
  "orientation (snd (burn_fuel s dt)) = orientation s"
  "rotation (snd (burn_fuel s dt)) = rotation s"
  by (simp_all add: burn_fuel_def Let_def)

lemma burn_fuel_nonneg: "0 \<le> fuel s \<Longrightarrow> 0 \<le> fuel (snd (burn_fuel s dt))"
  by (simp add: burn_fuel_fuel)

lemma burn_fuel_le:
  "0 \<le> fuel s \<Longrightarrow> 0 \<le> dt \<Longrightarrow> 0 \<le> throttle s \<Longrightarrow> fuel (snd (burn_fuel s dt)) \<le> fuel s"
  by (simp add: burn_fuel_fuel THROTTLE_MAX_def)

lemma mass_ge: "0 \<le> fuel s \<Longrightarrow> EMPTY_MASS \<le> mass s"
  by (simp add: mass_def)

lemma apply_thrust_ok:
  "0 \<le> fuel s \<Longrightarrow>
   apply_thrust s fb = Inr (s\<lparr>velocity := Vector_add (velocity s)
      \<lparr>direction = orientation s + HALF_PI, magnitude = fb * EXHAUST_VELOCITY / mass s\<rparr>\<rparr>)"
  by (simp add: apply_thrust_def Let_def mass_def EMPTY_MASS_def)

text \<open>The method as one equation, for a ship whose fuel is not negative.\<close>

lemma Ship_update_eq:
  assumes "0 \<le> fuel s"
  shows "Ship_update s dt now rnd sparks =
    (let s1 = update_gravity (update_position s dt) dt in
     if throttle s > 0 then
       (let fb = fst (burn_fuel s1 dt); s2 = snd (burn_fuel s1 dt);
            s3 = s2\<lparr>velocity := Vector_add (velocity s2)
                   \<lparr>direction = orientation s2 + HALF_PI, magnitude = fb * EXHAUST_VELOCITY / mass s2\<rparr>\<rparr>
        in Inr (update_orientation s3 dt, spawn_sparks s3 fb now rnd sparks))
     else Inr (update_orientation s1 dt, sparks))"
proof -
  let ?s1 = "update_gravity (update_position s dt) dt"
  have "0 \<le> fuel (snd (burn_fuel ?s1 dt))"
    using assms by (simp add: burn_fuel_nonneg)
  then show ?thesis
    by (simp add: Ship_update_def Let_def split_beta apply_thrust_ok)
qed

lemma Ship_update_total:
  assumes "0 \<le> fuel s"
  shows "\<exists>s' sparks'. Ship_update s dt now rnd sparks = Inr (s', sparks')"
  by (simp add: Ship_update_eq [OF assms] Let_def)

lemma Ship_update_fuel:
  assumes "0 \<le> fuel s" and "Ship_update s dt now rnd sparks = Inr (s', sparks')"
  shows "fuel s' = (if throttle s > 0 then fuel (snd (burn_fuel s dt)) else fuel s)"
  using assms(2) unfolding Ship_update_eq [OF assms(1)]
  by (auto simp: Let_def burn_fuel_fuel split: if_splits)

lemma Ship_update_throttle:
  assumes "0 \<le> fuel s" and "Ship_update s dt now rnd sparks = Inr (s', sparks')"
  shows "throttle s' = (if throttle s > 0 then throttle (snd (burn_fuel s dt)) else throttle s)"
  using assms(2) unfolding Ship_update_eq [OF assms(1)]
  by (auto simp: Let_def burn_fuel_throttle split: if_splits)

lemma Ship_update_fuel_throttle:
  assumes "0 \<le> fuel s"
  shows "\<exists>s' sparks'. Ship_update s dt now rnd sparks = Inr (s', sparks')
     \<and> fuel s' = (if throttle s > 0 then fuel (snd (burn_fuel s dt)) else fuel s)
     \<and> throttle s' = (if throttle s > 0 then throttle (snd (burn_fuel s dt)) else throttle s)"
  using Ship_update_total [OF assms, of dt now rnd sparks]
    Ship_update_fuel [OF assms, of dt now rnd sparks]
    Ship_update_throttle [OF assms, of dt now rnd sparks]
  by blast

lemma Ship_update_fuel_bounds:
  assumes "0 \<le> fuel s" and "0 \<le> dt" and "Ship_update s dt now rnd sparks = Inr (s', sparks')"
  shows "0 \<le> fuel s' \<and> fuel s' \<le> fuel s"
proof (cases "throttle s > 0")
  case True
  then show ?thesis
    using assms burn_fuel_nonneg [of s dt] burn_fuel_le [of s dt]
    by (simp add: Ship_update_fuel [OF assms(1,3)])
next
  case False
  then show ?thesis using assms by (simp add: Ship_update_fuel [OF assms(1,3)])
qed

text \<open>
  Where the burn of the tick is strictly more than the fuel left, the call leaves both
  the fuel and the throttle at 0.
\<close>

lemma throttle_zero_when_burn_exceeds_fuel:
  assumes "0 < throttle s" and "throttle s * THROTTLE_MAX * dt > fuel s"
    and "Ship_update s dt now rnd sparks = Inr (s', sparks')"
  shows "fuel s' = 0 \<and> throttle s' = 0"
  using assms
  by (auto simp: Ship_update_def Let_def burn_fuel_def apply_thrust_def split_beta
      split: if_splits sum.splits)

lemma increase_throttle_no_fuel: "fuel s = 0 \<Longrightarrow> increase_throttle s = s"
  by (simp add: increase_throttle_def)

lemma increase_throttle_fuel [simp]: "fuel (increase_throttle s) = fuel s"
  by (simp add: increase_throttle_def Let_def)

lemma decrease_throttle_fuel [simp]: "fuel (decrease_throttle s) = fuel s"
  by (simp add: decrease_throttle_def Let_def)

lemma set_rotation_fuel [simp]: "fuel (set_rotation s r) = fuel s"
  by (simp add: set_rotation_def)

lemma increase_throttle_throttle:
  "fuel s \<noteq> 0 \<Longrightarrow> throttle (increase_throttle s) = min 1 (throttle s + 1 / 10)"
  by (simp add: increase_throttle_def Let_def)

lemma increase_throttle_funpow:
  assumes "fuel s \<noteq> 0"
  shows "fuel ((increase_throttle ^^ k) s) = fuel s
       \<and> throttle ((increase_throttle ^^ k) s)
           = (if k = 0 then throttle s else min 1 (throttle s + real k / 10))"
proof (induction k)
  case 0
  then show ?case by simp
next
  case (Suc k)
  then have f: "fuel ((increase_throttle ^^ k) s) \<noteq> 0" using assms by simp
  show ?case
    using Suc increase_throttle_throttle [OF f]
    by (auto simp: min_def field_simps)
qed

lemma decrease_throttle_nonneg: "0 \<le> throttle (decrease_throttle s)"
  by (simp add: decrease_throttle_def Let_def)

section \<open>Facts about runs\<close>

lemma do_call_fuel:
  assumes "0 \<le> fuel ship" and "nonneg_dt c"
  shows "\<exists>ship' sparks'. do_call c (ship, sparks) = Inr (ship', sparks')
           \<and> 0 \<le> fuel ship' \<and> fuel ship' \<le> fuel ship"
proof (cases c)
  case (Update dt now rnd)
  obtain ship' sparks' where r: "Ship_update ship dt now rnd sparks = Inr (ship', sparks')"
    using Ship_update_total [OF assms(1)] by blast
  with Update assms Ship_update_fuel_bounds [OF assms(1) _ r] show ?thesis by simp
qed (use assms in simp_all)

lemma run_fuel:
  assumes "0 \<le> fuel ship" and "list_all nonneg_dt cs"
  shows "\<exists>ship' sparks'. run cs (ship, sparks) = Inr (ship', sparks')
           \<and> 0 \<le> fuel ship' \<and> fuel ship' \<le> fuel ship"
  using assms
proof (induction cs arbitrary: ship sparks)
  case Nil
  then show ?case by simp
next
  case (Cons c cs)
  from Cons.prems obtain ship1 sparks1 where
    s: "do_call c (ship, sparks) = Inr (ship1, sparks1)" "0 \<le> fuel ship1" "fuel ship1 \<le> fuel ship"
    using do_call_fuel [of ship c sparks] by auto
  from Cons.IH [OF s(2), of sparks1] Cons.prems obtain ship' sparks' where
    "run cs (ship1, sparks1) = Inr (ship', sparks')" "0 \<le> fuel ship'" "fuel ship' \<le> fuel ship1"
    by auto
  with s show ?case by simp
qed

lemma run_append:
  "run (xs @ ys) w = (case run xs w of Inl e \<Rightarrow> Inl e | Inr w' \<Rightarrow> run ys w')"
  by (induction xs arbitrary: w) (auto split: sum.splits)

lemma run_replicate_Increase_throttle:
  "run (replicate n Increase_throttle) (s, sparks) = Inr ((increase_throttle ^^ n) s, sparks)"
  by (induction n arbitrary: s) (simp_all add: funpow_swap1)

text \<open>
  At full throttle a tick of a thirtieth of a second burns 20 kg, so a tank of \<open>20 n\<close> kg
  is empty after exactly \<open>n\<close> such ticks, each of which takes the branch
  \<^verbatim>\<open>self.fuel -= fuel_burned\<close>.
\<close>

lemma run_full_throttle_to_empty:
  assumes "throttle s = 1" and "fuel s = 20 * real n"
  shows "\<exists>s' sparks'. run (replicate n (Update (1 / 30) now rnd)) (s, sparks) = Inr (s', sparks')
           \<and> fuel s' = 0 \<and> throttle s' = 1"
  using assms
proof (induction n arbitrary: s sparks)
  case 0
  then show ?case by simp
next
  case (Suc n)
  have f: "0 \<le> fuel s" using Suc.prems by simp
  obtain s1 sparks1 where
    u: "Ship_update s (1 / 30) now rnd sparks = Inr (s1, sparks1)"
    and "fuel s1 = (if throttle s > 0 then fuel (snd (burn_fuel s (1 / 30))) else fuel s)"
    and "throttle s1 = (if throttle s > 0 then throttle (snd (burn_fuel s (1 / 30))) else throttle s)"
    using Ship_update_fuel_throttle [OF f, of "1 / 30" now rnd sparks] by blast
  then have s1: "throttle s1 = 1" "fuel s1 = 20 * real n"
    using Suc.prems by (simp_all add: burn_fuel_fuel burn_fuel_throttle THROTTLE_MAX_def)
  from Suc.IH [OF s1, of sparks1] u show ?case by simp
qed

section \<open>Fuel and throttle\<close>

text \<open>
  Claim C1 says that in every call of \<^verbatim>\<open>Ship.update\<close> with a positive time step in
  which the fuel becomes 0, the throttle is 0 at the end of the call, also when the
  burn of the tick is exactly the fuel left. The test of the source is the strict
  \<^verbatim>\<open>fuel_burned > self.fuel\<close>: a ship with 300 kg of fuel at full throttle burns exactly
  300 kg in half a second, takes the branch \<^verbatim>\<open>self.fuel -= fuel_burned\<close>, and ends the
  call with no fuel and the throttle still 1. The same happens to the initial ship after
  eleven calls of \<^verbatim>\<open>increase_throttle\<close> and 250 ticks of a thirtieth of a second.
\<close>

theorem throttle_kept_when_burn_equals_fuel:
  "map_sum id (\<lambda>(ship, sparks). (fuel ship, throttle ship))
     (Ship_update (Ship_init\<lparr>throttle := 1, fuel := 300\<rparr>) (1 / 2) 0 (\<lambda>i. (0, 0)) [])
   = Inr (0, 1)
   \<and> map_sum id (\<lambda>(ship, sparks). (fuel ship, throttle ship))
       (run (replicate 11 Increase_throttle @ replicate 250 (Update (1 / 30) 0 (\<lambda>i. (0, 0))))
          (Ship_init, []))
     = Inr (0, 1)"
proof -
  let ?s = "Ship_init\<lparr>throttle := 1, fuel := 300\<rparr>"
  have "0 \<le> fuel ?s" by simp
  from Ship_update_fuel_throttle [OF this, of "1 / 2" 0 "\<lambda>i. (0, 0)" "[]"]
  have a: "map_sum id (\<lambda>(ship, sparks). (fuel ship, throttle ship))
     (Ship_update ?s (1 / 2) 0 (\<lambda>i. (0, 0)) []) = Inr (0, 1)"
    by (auto simp: burn_fuel_fuel burn_fuel_throttle THROTTLE_MAX_def)
  let ?t = "(increase_throttle ^^ 11) Ship_init"
  have t: "throttle ?t = 1" "fuel ?t = 20 * real 250"
    using increase_throttle_funpow [of Ship_init 11] by (simp_all add: Ship_init_def)
  from run_full_throttle_to_empty [OF t, of 0 "\<lambda>i. (0, 0)" "[]"]
  have b: "map_sum id (\<lambda>(ship, sparks). (fuel ship, throttle ship))
       (run (replicate 11 Increase_throttle @ replicate 250 (Update (1 / 30) 0 (\<lambda>i. (0, 0))))
          (Ship_init, [])) = Inr (0, 1)"
    by (auto simp: run_append run_replicate_Increase_throttle)
  from a b show ?thesis by (rule conjI)
qed

text \<open>
  Claim C3. Take a ship whose fuel is not negative and any sequence of calls of
  \<^verbatim>\<open>update\<close>, \<^verbatim>\<open>update_all\<close>, \<^verbatim>\<open>increase_throttle\<close>, \<^verbatim>\<open>decrease_throttle\<close> and
  \<^verbatim>\<open>set_rotation\<close> whose time steps are not negative. No call raises, and between
  any two points of the run the fuel does not increase and is never negative. From
  a point where the fuel is 0 it stays 0, and \<^verbatim>\<open>increase_throttle\<close> returns the ship
  as it is. (The throttle needs no hypothesis: a throttle that is not positive burns
  nothing.)
\<close>

theorem fuel_non_increasing:
  assumes "0 \<le> fuel ship" and "list_all nonneg_dt (xs @ ys)"
  shows "\<exists>ship1 sparks1 ship2 sparks2.
           run xs (ship, sparks) = Inr (ship1, sparks1)
         \<and> run (xs @ ys) (ship, sparks) = Inr (ship2, sparks2)
         \<and> 0 \<le> fuel ship2 \<and> fuel ship2 \<le> fuel ship1 \<and> fuel ship1 \<le> fuel ship
         \<and> (fuel ship1 = 0 \<longrightarrow> fuel ship2 = 0 \<and> increase_throttle ship2 = ship2)"
proof -
  from assms obtain ship1 sparks1 where
    a: "run xs (ship, sparks) = Inr (ship1, sparks1)" "0 \<le> fuel ship1" "fuel ship1 \<le> fuel ship"
    using run_fuel [of ship xs sparks] by auto
  from assms a(2) obtain ship2 sparks2 where
    b: "run ys (ship1, sparks1) = Inr (ship2, sparks2)" "0 \<le> fuel ship2" "fuel ship2 \<le> fuel ship1"
    using run_fuel [of ship1 ys sparks1] by auto
  have c: "run (xs @ ys) (ship, sparks) = Inr (ship2, sparks2)"
    using a(1) b(1) by (simp add: run_append)
  have "fuel ship1 = 0 \<longrightarrow> fuel ship2 = 0 \<and> increase_throttle ship2 = ship2"
    using b(2,3) by (auto simp: increase_throttle_no_fuel)
  with a b c show ?thesis by blast
qed

theorem fuel_non_increasing_witness:
  "0 \<le> fuel (Ship_init\<lparr>throttle := 1, fuel := 100\<rparr>)
   \<and> list_all nonneg_dt
        ([Update (1 / 4) 0 (\<lambda>i. (0, 0))] @ [Increase_throttle, Update (1 / 4) 1 (\<lambda>i. (0, 0))])
   \<and> (\<exists>ship1 sparks1 ship2 sparks2.
         run [Update (1 / 4) 0 (\<lambda>i. (0, 0))] (Ship_init\<lparr>throttle := 1, fuel := 100\<rparr>, [])
           = Inr (ship1, sparks1)
       \<and> run ([Update (1 / 4) 0 (\<lambda>i. (0, 0))] @ [Increase_throttle, Update (1 / 4) 1 (\<lambda>i. (0, 0))])
             (Ship_init\<lparr>throttle := 1, fuel := 100\<rparr>, []) = Inr (ship2, sparks2)
       \<and> fuel ship1 = 0 \<and> fuel ship2 = 0 \<and> increase_throttle ship2 = ship2)"
proof -
  let ?s = "Ship_init\<lparr>throttle := 1, fuel := 100\<rparr>"
  let ?xs = "[Update (1 / 4) 0 (\<lambda>i. (0::real, 0::real))]"
  let ?ys = "[Increase_throttle, Update (1 / 4) 1 (\<lambda>i. (0::real, 0::real))]"
  have h1: "0 \<le> fuel ?s" by simp
  have h2: "list_all nonneg_dt (?xs @ ?ys)" by simp
  from fuel_non_increasing [OF h1 h2, of "[]"] obtain ship1 sparks1 ship2 sparks2 where
    r: "run ?xs (?s, []) = Inr (ship1, sparks1)"
       "run (?xs @ ?ys) (?s, []) = Inr (ship2, sparks2)"
       "0 \<le> fuel ship2" "fuel ship2 \<le> fuel ship1" "fuel ship1 \<le> fuel ?s"
       "fuel ship1 = 0 \<longrightarrow> fuel ship2 = 0 \<and> increase_throttle ship2 = ship2"
    by blast
  have "Ship_update ?s (1 / 4) 0 (\<lambda>i. (0, 0)) [] = Inr (ship1, sparks1)"
    using r(1) by (simp split: sum.splits)
  then have "fuel ship1 = 0"
    using Ship_update_fuel [OF h1, of "1 / 4" 0 "\<lambda>i. (0, 0)" "[]" ship1 sparks1]
    by (simp add: burn_fuel_fuel THROTTLE_MAX_def)
  with r h1 h2 show ?thesis by blast
qed

text \<open>
  Claim C6. From throttle 0 and with fuel in the tank, 20 calls of
  \<^verbatim>\<open>increase_throttle\<close> leave the throttle at exactly 1, and after any number of calls
  it is between 0 and 1, never above. Every call of \<^verbatim>\<open>decrease_throttle\<close> leaves the
  throttle at 0 or more. (The source tests \<^verbatim>\<open>if self.fuel\<close>, so fuel different from 0
  is enough.)
\<close>

theorem throttle_clamps:
  "(fuel s \<noteq> 0 \<and> throttle s = 0 \<longrightarrow>
      throttle ((increase_throttle ^^ 20) s) = 1
    \<and> (\<forall>k. 0 \<le> throttle ((increase_throttle ^^ k) s)
           \<and> throttle ((increase_throttle ^^ k) s) \<le> 1))
   \<and> 0 \<le> throttle (decrease_throttle s)"
  using increase_throttle_funpow [of s] decrease_throttle_nonneg [of s]
  by (auto simp: min_def)

theorem throttle_clamps_witness:
  "fuel Ship_init \<noteq> 0 \<and> throttle Ship_init = 0
   \<and> throttle ((increase_throttle ^^ 20) Ship_init) = 1
   \<and> throttle ((increase_throttle ^^ 25) Ship_init) \<le> 1
   \<and> throttle (decrease_throttle Ship_init) = 0"
proof -
  have h: "fuel Ship_init \<noteq> 0 \<and> throttle Ship_init = 0" by (simp add: Ship_init_def)
  have "throttle ((increase_throttle ^^ 25) Ship_init) \<le> 1"
    using throttle_clamps [of Ship_init] h by blast
  moreover have "throttle ((increase_throttle ^^ 20) Ship_init) = 1"
    using throttle_clamps [of Ship_init] h by blast
  moreover have "throttle (decrease_throttle Ship_init) = 0"
    by (simp add: decrease_throttle_def Ship_init_def Let_def)
  ultimately show ?thesis using h by simp
qed

text \<open>
  Claim C9. For a ship whose fuel is not negative the mass is at least
  \<^verbatim>\<open>EMPTY_MASS\<close>, which is 5000, so it is positive; so is the mass that
  \<^verbatim>\<open>Ship.update\<close> divides by, which is the mass after the fuel deduction. The call
  returns a ship and a list of sparks instead of raising \<^verbatim>\<open>ZeroDivisionError\<close>, for
  every time step, and for a time step that is not negative the fuel of the new ship is
  not negative either.
\<close>

theorem mass_positive_update_total:
  assumes "0 \<le> fuel s"
  shows "EMPTY_MASS = 5000 \<and> EMPTY_MASS \<le> mass s \<and> 0 < mass s
       \<and> EMPTY_MASS \<le> mass (snd (burn_fuel (update_gravity (update_position s dt) dt) dt))
       \<and> (\<exists>s' sparks'. Ship_update s dt now rnd sparks = Inr (s', sparks')
             \<and> (0 \<le> dt \<longrightarrow> 0 \<le> fuel s'))"
proof -
  have "0 \<le> fuel (snd (burn_fuel (update_gravity (update_position s dt) dt) dt))"
    using assms by (simp add: burn_fuel_nonneg)
  then have a: "EMPTY_MASS \<le> mass (snd (burn_fuel (update_gravity (update_position s dt) dt) dt))"
    by (rule mass_ge)
  obtain s' sparks' where r: "Ship_update s dt now rnd sparks = Inr (s', sparks')"
    using Ship_update_total [OF assms] by blast
  have "0 \<le> dt \<longrightarrow> 0 \<le> fuel s'"
    using Ship_update_fuel_bounds [OF assms _ r] by simp
  with r a mass_ge [OF assms] show ?thesis
    by (auto simp: EMPTY_MASS_def)
qed

theorem mass_positive_update_total_witness:
  "0 \<le> fuel (Ship_init\<lparr>throttle := 1\<rparr>) \<and> mass (Ship_init\<lparr>throttle := 1\<rparr>) = 10000
   \<and> (\<exists>s' sparks'.
         Ship_update (Ship_init\<lparr>throttle := 1\<rparr>) (1 / 2) 0 (\<lambda>i. (0, 0)) [] = Inr (s', sparks')
       \<and> 0 \<le> fuel s')"
proof -
  have h: "0 \<le> fuel (Ship_init\<lparr>throttle := 1\<rparr>)" by (simp add: Ship_init_def)
  from mass_positive_update_total [OF h, of "1 / 2" 0 "\<lambda>i. (0, 0)" "[]"] show ?thesis
    by (auto simp: Ship_init_def mass_def EMPTY_MASS_def)
qed

text \<open>
  Claim C10. In a call of \<^verbatim>\<open>Ship.update\<close> with a positive throttle that returns, the
  velocity is the old velocity plus gravity plus a thrust vector whose magnitude is
  \<open>fuel_burned * EXHAUST_VELOCITY / (EMPTY_MASS + fuel')\<close>, where \<open>fuel'\<close> is the fuel of
  the ship after the call, that is the fuel before the call less the fuel burned: the
  mass is read after the deduction.
\<close>

theorem thrust_divides_by_mass_after_burn:
  assumes "0 < throttle s" and "Ship_update s dt now rnd sparks = Inr (s', sparks')"
  shows "\<exists>fuel_burned.
           fuel_burned = (if throttle s * THROTTLE_MAX * dt > fuel s then fuel s
                          else throttle s * THROTTLE_MAX * dt)
         \<and> fuel s' = fuel s - fuel_burned
         \<and> velocity s' =
             Vector_add (Vector_add (velocity s) \<lparr>direction = - HALF_PI, magnitude = G * dt\<rparr>)
               \<lparr>direction = orientation s + HALF_PI,
                magnitude = fuel_burned * EXHAUST_VELOCITY / (EMPTY_MASS + fuel s')\<rparr>"
  using assms
  by (auto simp: Ship_update_def Let_def burn_fuel_def apply_thrust_def split_beta mass_def
      update_gravity_def add.commute split: if_splits sum.splits)

theorem thrust_divides_by_mass_after_burn_witness:
  "0 < throttle (Ship_init\<lparr>throttle := 1\<rparr>)
   \<and> (\<exists>s' sparks'.
         Ship_update (Ship_init\<lparr>throttle := 1\<rparr>) (1 / 2) 0 (\<lambda>i. (0, 0)) [] = Inr (s', sparks')
       \<and> fuel s' = 4700
       \<and> velocity s' =
           Vector_add (Vector_add \<lparr>direction = 0, magnitude = 20\<rparr> \<lparr>direction = - HALF_PI, magnitude = 5\<rparr>)
             \<lparr>direction = HALF_PI, magnitude = 150000 / 9700\<rparr>)"
proof -
  let ?s = "Ship_init\<lparr>throttle := 1\<rparr>"
  have h: "0 < throttle ?s" by simp
  have "0 \<le> fuel ?s" by (simp add: Ship_init_def)
  then obtain s' sparks' where
    r: "Ship_update ?s (1 / 2) 0 (\<lambda>i. (0, 0)) [] = Inr (s', sparks')"
    using Ship_update_total by blast
  from thrust_divides_by_mass_after_burn [OF h r]
  have "fuel s' = 4700 \<and> velocity s' =
           Vector_add (Vector_add \<lparr>direction = 0, magnitude = 20\<rparr> \<lparr>direction = - HALF_PI, magnitude = 5\<rparr>)
             \<lparr>direction = HALF_PI, magnitude = 150000 / 9700\<rparr>"
    by (simp add: Ship_init_def THROTTLE_MAX_def G_def EXHAUST_VELOCITY_def EMPTY_MASS_def)
  with h r show ?thesis by blast
qed

section \<open>Facts about sparks\<close>

lemma Spark_init_Cons: "Spark_init p d t r sparks = new_spark p d t r # sparks"
  by (simp add: Spark_init_def new_spark_def Let_def)

lemma fold_Spark_init:
  "fold (\<lambda>i sparks. Spark_init p d t (rnd i) sparks) is sparks
   = rev (map (\<lambda>i. new_spark p d t (rnd i)) is) @ sparks"
  by (induction "is" arbitrary: sparks) (simp_all add: Spark_init_Cons)

lemma spawn_sparks_eq:
  "spawn_sparks s fb now rnd sparks =
     rev (map (\<lambda>i. new_spark (position s) (orientation s - HALF_PI) now (rnd i))
            (xrange (py_int (fb * SPARKS_PER_KG)))) @ sparks"
  by (simp add: spawn_sparks_def fold_Spark_init)

lemma Ship_update_sparks:
  assumes "Ship_update s dt now rnd sparks = Inr (s', sparks')"
  shows "\<exists>news. sparks' = news @ sparks \<and> (\<forall>sp \<in> set news. start_time sp = now)"
proof (cases "0 < throttle s")
  case True
  with assms obtain s3 fb where "sparks' = spawn_sparks s3 fb now rnd sparks"
    by (auto simp: Ship_update_def Let_def split_beta split: sum.splits)
  then show ?thesis
    by (auto simp: spawn_sparks_eq new_spark_def)
next
  case False
  with assms have "sparks' = sparks"
    by (simp add: Ship_update_def Let_def)
  then show ?thesis by simp
qed

lemma Spark_update_start_time [simp]: "start_time (Spark_update s dt) = start_time s"
  by (simp add: Spark_update_def Let_def split: prod.splits)

lemma Spark_update_age [simp]: "age (Spark_update s dt) = age s"
  by (simp add: Spark_update_def Let_def split: prod.splits)

text \<open>The loop keeps the longest prefix of sparks that have not expired.\<close>

lemma update_all_takeWhile:
  "update_all dt now sparks =
     map (\<lambda>s. Spark_update (s\<lparr>age := (now - start_time s) / SPARK_LIFETIME\<rparr>) dt)
       (takeWhile (\<lambda>s. \<not> (now - start_time s) / SPARK_LIFETIME > 1) sparks)"
  by (induction sparks) (simp_all add: Let_def)

lemma newest_first_Cons:
  "newest_first (s # sparks) \<longleftrightarrow>
     (\<forall>s' \<in> set sparks. start_time s' \<le> start_time s) \<and> newest_first sparks"
  by (simp add: newest_first_def)

lemma newest_first_append:
  "newest_first (xs @ ys) \<longleftrightarrow>
     newest_first xs \<and> newest_first ys
     \<and> (\<forall>x \<in> set xs. \<forall>y \<in> set ys. start_time y \<le> start_time x)"
  by (simp add: newest_first_def sorted_wrt_append)

lemma newest_first_same_time:
  "\<forall>s \<in> set xs. start_time s = t \<Longrightarrow> newest_first xs"
  by (induction xs) (simp_all add: newest_first_def)

lemma newest_first_map:
  "newest_first sparks \<longleftrightarrow> sorted_wrt (\<lambda>a b. b \<le> a) (map start_time sparks)"
  by (simp add: newest_first_def sorted_wrt_map)

text \<open>In a list in order of age, the sparks behind an expired one have expired too.\<close>

lemma takeWhile_filter_newest_first:
  assumes "newest_first sparks"
  shows "takeWhile (\<lambda>s. \<not> (now - start_time s) / SPARK_LIFETIME > 1) sparks
         = filter (\<lambda>s. \<not> (now - start_time s) / SPARK_LIFETIME > 1) sparks"
  using assms
proof (induction sparks)
  case Nil
  then show ?case by simp
next
  case (Cons s sparks)
  show ?case
  proof (cases "(now - start_time s) / SPARK_LIFETIME > 1")
    case True
    have "\<forall>s' \<in> set sparks. (now - start_time s') / SPARK_LIFETIME > 1"
    proof
      fix s' assume "s' \<in> set sparks"
      then have "start_time s' \<le> start_time s"
        using Cons.prems by (simp add: newest_first_Cons)
      then show "(now - start_time s') / SPARK_LIFETIME > 1"
        using True by (simp add: SPARK_LIFETIME_def)
    qed
    then have "filter (\<lambda>s. \<not> (now - start_time s) / SPARK_LIFETIME > 1) sparks = []"
      by (simp add: filter_empty_conv)
    with True show ?thesis by simp
  next
    case False
    then show ?thesis
      using Cons by (simp add: newest_first_Cons)
  qed
qed

lemma update_all_filter:
  assumes "newest_first sparks"
  shows "update_all dt now sparks =
     map (\<lambda>s. Spark_update (s\<lparr>age := (now - start_time s) / SPARK_LIFETIME\<rparr>) dt)
       (filter (\<lambda>s. (now - start_time s) / SPARK_LIFETIME \<le> 1) sparks)"
  using takeWhile_filter_newest_first [OF assms, of now]
  by (simp add: update_all_takeWhile not_less)

lemma update_all_age:
  "s \<in> set (update_all dt now sparks) \<Longrightarrow>
     age s = (now - start_time s) / SPARK_LIFETIME \<and> age s \<le> 1"
  by (auto simp: update_all_takeWhile dest!: set_takeWhileD)

lemma update_all_subset:
  "s \<in> set (update_all dt now sparks) \<Longrightarrow> \<exists>s0 \<in> set sparks. start_time s = start_time s0"
  by (auto simp: update_all_takeWhile dest!: set_takeWhileD)

lemma update_all_start_times:
  assumes "newest_first sparks"
  shows "map start_time (update_all dt now sparks)
         = filter (\<lambda>t. (now - t) / SPARK_LIFETIME \<le> 1) (map start_time sparks)"
  by (simp add: update_all_filter [OF assms] filter_map comp_def)

lemma update_all_newest_first:
  assumes "newest_first sparks"
  shows "newest_first (update_all dt now sparks)"
  using assms unfolding newest_first_map update_all_start_times [OF assms]
  by (rule sorted_wrt_filter)

lemma update_all_seq_start_times:
  assumes "newest_first sparks"
  shows "newest_first (update_all_seq ticks sparks)
       \<and> map start_time (update_all_seq ticks sparks)
         = filter (\<lambda>t. \<forall>(dt, now) \<in> set ticks. (now - t) / SPARK_LIFETIME \<le> 1)
             (map start_time sparks)"
  using assms
proof (induction ticks arbitrary: sparks)
  case Nil
  then show ?case by (simp add: update_all_seq_def)
next
  case (Cons tick ticks)
  obtain dt now where t: "tick = (dt, now)" by (cases tick)
  have s: "update_all_seq (tick # ticks) sparks = update_all_seq ticks (update_all dt now sparks)"
    by (simp add: update_all_seq_def t)
  have n: "newest_first (update_all dt now sparks)"
    using Cons.prems by (rule update_all_newest_first)
  show ?case
    unfolding s using Cons.IH [OF n] update_all_start_times [OF Cons.prems, of dt now]
    by (auto simp: t intro: filter_cong)
qed

lemma sorted_le_last:
  fixes xs :: "real list"
  shows "sorted xs \<Longrightarrow> x \<in> set xs \<Longrightarrow> x \<le> last xs"
  by (induction xs) auto

text \<open>With a clock that does not go back, the last tick decides.\<close>

lemma ticks_all_iff_last:
  assumes "sorted (map snd ticks)" and "ticks \<noteq> []"
  shows "(\<forall>(dt, now) \<in> set ticks. (now - t) / SPARK_LIFETIME \<le> 1)
         \<longleftrightarrow> (snd (last ticks) - t) / SPARK_LIFETIME \<le> 1"
proof
  assume "\<forall>(dt, now) \<in> set ticks. (now - t) / SPARK_LIFETIME \<le> 1"
  moreover have "last ticks \<in> set ticks" using assms(2) by simp
  ultimately show "(snd (last ticks) - t) / SPARK_LIFETIME \<le> 1"
    by (auto simp: split_beta)
next
  assume a: "(snd (last ticks) - t) / SPARK_LIFETIME \<le> 1"
  have "\<And>x. x \<in> set ticks \<Longrightarrow> snd x \<le> snd (last ticks)"
  proof -
    fix x assume "x \<in> set ticks"
    then have "snd x \<in> set (map snd ticks)" by simp
    then have "snd x \<le> last (map snd ticks)"
      using assms(1) sorted_le_last by blast
    then show "snd x \<le> snd (last ticks)"
      using assms(2) by (simp add: last_map)
  qed
  then show "\<forall>(dt, now) \<in> set ticks. (now - t) / SPARK_LIFETIME \<le> 1"
    using a by (fastforce simp: SPARK_LIFETIME_def)
qed

lemma update_all_seq_monotone_clock:
  assumes "newest_first sparks" and "sorted (map snd ticks)" and "ticks \<noteq> []"
  shows "map start_time (update_all_seq ticks sparks)
         = filter (\<lambda>t. (snd (last ticks) - t) / SPARK_LIFETIME \<le> 1) (map start_time sparks)"
  using update_all_seq_start_times [OF assms(1), of ticks] ticks_all_iff_last [OF assms(2,3)]
  by simp

text \<open>
  Claim C2. \<^verbatim>\<open>Spark.update_all\<close> scans the list from the front, gives every spark it
  reaches the age \<open>(now - start_time) / SPARK_LIFETIME\<close>, and at the first spark whose
  age is above 1 drops that spark and all behind it: what is left is the longest prefix
  of sparks of age at most 1, each moved on by \<^verbatim>\<open>Spark.update\<close>. On a list in order of
  age, newest first, that prefix is all the sparks of age at most 1, so a spark is in the
  new list exactly when its age at \<open>now\<close> is at most 1, and every spark of the new list
  has its age at \<open>now\<close>, which is at most 1. Over a sequence of calls, the sparks left are
  those whose age was at most 1 at every call, so a spark that was dropped never comes
  back; with a clock that does not go back they are those of age at most 1 at the last
  call.
\<close>

theorem update_all_expiry:
  assumes "newest_first sparks"
  shows "update_all dt now sparks =
           map (\<lambda>s. Spark_update (s\<lparr>age := (now - start_time s) / SPARK_LIFETIME\<rparr>) dt)
             (takeWhile (\<lambda>s. \<not> (now - start_time s) / SPARK_LIFETIME > 1) sparks)
       \<and> update_all dt now sparks =
           map (\<lambda>s. Spark_update (s\<lparr>age := (now - start_time s) / SPARK_LIFETIME\<rparr>) dt)
             (filter (\<lambda>s. (now - start_time s) / SPARK_LIFETIME \<le> 1) sparks)
       \<and> (\<forall>s \<in> set (update_all dt now sparks).
             age s = (now - start_time s) / SPARK_LIFETIME \<and> age s \<le> 1)
       \<and> map start_time (update_all_seq ticks sparks)
           = filter (\<lambda>t. \<forall>(dt, now) \<in> set ticks. (now - t) / SPARK_LIFETIME \<le> 1)
               (map start_time sparks)
       \<and> (sorted (map snd ticks) \<and> ticks \<noteq> [] \<longrightarrow>
            map start_time (update_all_seq ticks sparks)
            = filter (\<lambda>t. (snd (last ticks) - t) / SPARK_LIFETIME \<le> 1) (map start_time sparks))"
  using update_all_takeWhile [of dt now sparks] update_all_filter [OF assms, of dt now]
    update_all_age [of _ dt now sparks] update_all_seq_start_times [OF assms, of ticks]
    update_all_seq_monotone_clock [OF assms, of ticks]
  by blast

theorem update_all_expiry_witness:
  "newest_first [new_spark (0, 0) 0 2 (0, 0), new_spark (0, 0) 0 (1 / 2) (0, 0)]
   \<and> sorted (map snd [(1 / 2, 1), (1 / 2, 2 :: real)])
   \<and> map start_time
        (update_all (1 / 2) 2 [new_spark (0, 0) 0 2 (0, 0), new_spark (0, 0) 0 (1 / 2) (0, 0)])
       = [2]
   \<and> map age
        (update_all (1 / 2) 2 [new_spark (0, 0) 0 2 (0, 0), new_spark (0, 0) 0 (1 / 2) (0, 0)])
       = [0]
   \<and> map start_time (update_all_seq [(1 / 2, 1), (1 / 2, 2)]
        [new_spark (0, 0) 0 2 (0, 0), new_spark (0, 0) 0 (1 / 2) (0, 0)]) = [2]"
proof -
  let ?l = "[new_spark (0, 0) 0 2 (0, 0), new_spark (0, 0) 0 (1 / 2) (0, 0)]"
  have h: "newest_first ?l" by (simp add: newest_first_def new_spark_def)
  from update_all_expiry [OF h, of "1 / 2" 2 "[(1 / 2, 1), (1 / 2, 2)]"] h show ?thesis
    by (simp add: new_spark_def SPARK_LIFETIME_def)
qed

section \<open>The order of the sparks\<close>

lemma do_call_newest_first:
  assumes "do_call c (ship, sparks) = Inr (ship', sparks')"
    and "newest_first sparks"
    and "\<forall>s \<in> set sparks. \<forall>t \<in> set (spawn_times (c # cs)). start_time s \<le> t"
    and "sorted (spawn_times (c # cs))"
  shows "newest_first sparks'
       \<and> (\<forall>s \<in> set sparks'. \<forall>t \<in> set (spawn_times cs). start_time s \<le> t)
       \<and> sorted (spawn_times cs)"
proof (cases c)
  case (Update dt now rnd)
  with assms(1) obtain news where
    n: "sparks' = news @ sparks" "\<forall>sp \<in> set news. start_time sp = now"
    using Ship_update_sparks [of ship dt now rnd sparks ship' sparks'] by auto
  have "newest_first sparks'"
    using n assms(2,3) Update newest_first_same_time [of news now]
    by (auto simp: newest_first_append)
  moreover have "\<forall>s \<in> set sparks'. \<forall>t \<in> set (spawn_times cs). start_time s \<le> t"
    using n assms(3,4) Update by auto
  ultimately show ?thesis using assms(4) Update by simp
next
  case (Update_all dt now)
  with assms(1) have s: "sparks' = update_all dt now sparks" by simp
  have "\<forall>s \<in> set sparks'. \<forall>t \<in> set (spawn_times cs). start_time s \<le> t"
  proof (intro ballI)
    fix s t assume "s \<in> set sparks'" "t \<in> set (spawn_times cs)"
    then show "start_time s \<le> t"
      using update_all_subset [of s dt now sparks] assms(3) Update_all s by auto
  qed
  then show ?thesis
    using assms(2,4) Update_all s by (simp add: update_all_newest_first)
qed (use assms in auto)

lemma run_newest_first:
  assumes "run cs (ship, sparks) = Inr (ship', sparks')"
    and "newest_first sparks"
    and "\<forall>s \<in> set sparks. \<forall>t \<in> set (spawn_times cs). start_time s \<le> t"
    and "sorted (spawn_times cs)"
  shows "newest_first sparks'"
  using assms
proof (induction cs arbitrary: ship sparks)
  case Nil
  then show ?case by simp
next
  case (Cons c cs)
  from Cons.prems(1) obtain ship1 sparks1 where
    d: "do_call c (ship, sparks) = Inr (ship1, sparks1)"
    and r: "run cs (ship1, sparks1) = Inr (ship', sparks')"
    by (auto split: sum.splits)
  from do_call_newest_first [OF d Cons.prems(2,3,4)] Cons.IH [OF r] show ?case
    by blast
qed

lemma spawn_times_append: "spawn_times (xs @ ys) = spawn_times xs @ spawn_times ys"
  by (induction xs rule: spawn_times.induct) simp_all

text \<open>
  Claim C7. \<^verbatim>\<open>Spark.__init__\<close> puts the new spark at index 0 of the list of all sparks
  and leaves the rest of the list behind it; where no spark of the list is newer than
  the new one, the list stays in order of age, newest first. So in every run from the
  empty list in which the calls of \<^verbatim>\<open>Ship.update\<close>, the only ones that create sparks,
  receive time stamps that do not decrease, the list is in that order at every point of
  the run, also with calls of \<^verbatim>\<open>Spark.update_all\<close> in between.
\<close>

theorem sparks_stay_newest_first:
  assumes "sorted (spawn_times (xs @ ys))"
    and "run xs (ship, []) = Inr (ship', sparks')"
  shows "Spark_init position0 direction0 now rnd sparks ! 0 = new_spark position0 direction0 now rnd
       \<and> start_time (Spark_init position0 direction0 now rnd sparks ! 0) = now
       \<and> tl (Spark_init position0 direction0 now rnd sparks) = sparks
       \<and> (newest_first sparks \<and> (\<forall>s \<in> set sparks. start_time s \<le> now) \<longrightarrow>
            newest_first (Spark_init position0 direction0 now rnd sparks))
       \<and> newest_first sparks'"
proof -
  have "sorted (spawn_times xs)"
    using assms(1) by (simp add: spawn_times_append sorted_append)
  then have "newest_first sparks'"
    using run_newest_first [OF assms(2)] by (simp add: newest_first_def)
  then show ?thesis by (simp add: Spark_init_Cons new_spark_def newest_first_Cons)
qed

theorem sparks_stay_newest_first_witness:
  "sorted (spawn_times ([Update (1 / 100) 1 (\<lambda>i. (0, 0)), Update_all (1 / 100) 1]
                         @ [Update (1 / 100) 2 (\<lambda>i. (0, 0))]))
   \<and> (\<exists>ship' sparks'.
         run [Update (1 / 100) 1 (\<lambda>i. (0, 0)), Update_all (1 / 100) 1] (Ship_init\<lparr>throttle := 1\<rparr>, [])
           = Inr (ship', sparks')
       \<and> newest_first sparks')
   \<and> start_time (Spark_init (0, 0) 0 3 (0, 0) [] ! 0) = 3
   \<and> newest_first (Spark_init (0, 0) 0 3 (0, 0) [])"
proof -
  let ?xs = "[Update (1 / 100) 1 (\<lambda>i. (0::real, 0::real)), Update_all (1 / 100) 1]"
  let ?ys = "[Update (1 / 100) 2 (\<lambda>i. (0::real, 0::real))]"
  let ?s = "Ship_init\<lparr>throttle := 1\<rparr>"
  have h: "sorted (spawn_times (?xs @ ?ys))" by simp
  have "0 \<le> fuel ?s" by (simp add: Ship_init_def)
  moreover have "list_all nonneg_dt ?xs" by simp
  ultimately obtain ship' sparks' where r: "run ?xs (?s, []) = Inr (ship', sparks')"
    using run_fuel [of ?s ?xs "[]"] by blast
  have e: "newest_first [] \<and> (\<forall>s \<in> set ([] :: Spark list). start_time s \<le> 3)"
    by (simp add: newest_first_def)
  from sparks_stay_newest_first [OF h r, of "(0, 0)" 0 3 "(0, 0)" "[]"] h r e show ?thesis
    by blast
qed

section \<open>The two scenarios\<close>

text \<open>
  Claim C4. A ship with 5000 kg of fuel at throttle 1 burns 20 kg in a call of
  \<^verbatim>\<open>Ship.update\<close> with a time step of a thirtieth of a second, is left with 4980 kg, and
  the call puts exactly 10 new sparks, stamped \<open>now\<close>, in front of the old list.
\<close>

theorem full_throttle_tick:
  assumes "fuel s = 5000" and "throttle s = 1"
  shows "\<exists>s' sparks'.
           Ship_update s (1 / 30) now rnd sparks = Inr (s', sparks')
         \<and> fst (burn_fuel s (1 / 30)) = 20
         \<and> fuel s' = 4980
         \<and> py_int (20 * SPARKS_PER_KG) = 10
         \<and> length sparks' = length sparks + 10
         \<and> drop 10 sparks' = sparks
         \<and> (\<forall>sp \<in> set (take 10 sparks'). start_time sp = now \<and> age sp = 0)"
proof -
  have f: "0 \<le> fuel s" using assms by simp
  have b: "fst (burn_fuel (update_gravity (update_position s (1 / 30)) (1 / 30)) (1 / 30)) = 20"
    using assms by (simp add: burn_fuel_burned THROTTLE_MAX_def)
  have n: "xrange (py_int (20 * SPARKS_PER_KG)) = [0..<10]"
    by (simp add: xrange_def py_int_def SPARKS_PER_KG_def)
  obtain s' sparks' where r: "Ship_update s (1 / 30) now rnd sparks = Inr (s', sparks')"
    using Ship_update_total [OF f] by blast
  from r obtain s3 where sp: "sparks' = spawn_sparks s3 20 now rnd sparks"
    using assms b unfolding Ship_update_eq [OF f] by (auto simp: Let_def)
  have "fuel s' = 4980"
    using Ship_update_fuel [OF f r] assms by (simp add: burn_fuel_fuel THROTTLE_MAX_def)
  moreover have "fst (burn_fuel s (1 / 30)) = 20"
    using assms by (simp add: burn_fuel_burned THROTTLE_MAX_def)
  moreover have "py_int (20 * SPARKS_PER_KG) = 10"
    by (simp add: py_int_def SPARKS_PER_KG_def)
  moreover have "length sparks' = length sparks + 10" "drop 10 sparks' = sparks"
    "\<forall>sp \<in> set (take 10 sparks'). start_time sp = now \<and> age sp = 0"
    unfolding sp spawn_sparks_eq n by (auto simp: new_spark_def)
  ultimately show ?thesis using r by blast
qed

theorem full_throttle_tick_witness:
  "fuel (Ship_init\<lparr>throttle := 1\<rparr>) = 5000 \<and> throttle (Ship_init\<lparr>throttle := 1\<rparr>) = 1
   \<and> (\<exists>s' sparks'.
         Ship_update (Ship_init\<lparr>throttle := 1\<rparr>) (1 / 30) 7 (\<lambda>i. (0, 0)) [] = Inr (s', sparks')
       \<and> fst (burn_fuel (Ship_init\<lparr>throttle := 1\<rparr>) (1 / 30)) = 20
       \<and> fuel s' = 4980 \<and> length sparks' = 10)"
proof -
  have h: "fuel (Ship_init\<lparr>throttle := 1\<rparr>) = 5000" "throttle (Ship_init\<lparr>throttle := 1\<rparr>) = 1"
    by (simp_all add: Ship_init_def)
  from full_throttle_tick [OF h, of 7 "\<lambda>i. (0, 0)" "[]"] h show ?thesis
    by auto
qed

text \<open>
  Claim C8. For the initial ship (position \<open>(0, 768)\<close>, velocity of direction 0 and
  magnitude 20, fuel 5000, throttle 0, rotation 0) a call of \<^verbatim>\<open>Ship.update\<close> with a
  time step of a thirtieth of a second changes the position and the velocity and
  nothing else: the position moves by \<open>20 / 30 = 2 / 3\<close> horizontally, the new velocity
  is the polar form of the components \<open>20\<close> and \<open>- G / 30 = - 1 / 3\<close>, and the list of
  sparks is the old one.
\<close>

theorem coasting_tick:
  "Ship_update Ship_init (1 / 30) now rnd sparks =
     Inr (Ship_init\<lparr>position := (2 / 3, 768),
                     velocity := \<lparr>direction = math_atan2 (- (1 / 3)) 20,
                                  magnitude = sqrt (20 * 20 + (1 / 3) * (1 / 3))\<rparr>\<rparr>,
          sparks)
   \<and> 2 / 3 = 0 + 20 * (1 / 30 :: real)
   \<and> horizontal_component \<lparr>direction = math_atan2 (- (1 / 3)) 20,
                            magnitude = sqrt (20 * 20 + (1 / 3) * (1 / 3))\<rparr> = 20
   \<and> vertical_component \<lparr>direction = math_atan2 (- (1 / 3)) 20,
                          magnitude = sqrt (20 * 20 + (1 / 3) * (1 / 3))\<rparr> = - (G * (1 / 30))
   \<and> G * (1 / 30) = 1 / 3"
proof -
  have v: "Vector_add \<lparr>direction = 0, magnitude = 20\<rparr> \<lparr>direction = - HALF_PI, magnitude = G * (1 / 30)\<rparr>
           = \<lparr>direction = math_atan2 (- (1 / 3)) 20, magnitude = sqrt (20 * 20 + (1 / 3) * (1 / 3))\<rparr>"
    by (simp add: Vector_add_def Let_def horizontal_component_def vertical_component_def
        HALF_PI_def G_def)
  have "Ship_update Ship_init (1 / 30) now rnd sparks =
     Inr (Ship_init\<lparr>position := (2 / 3, 768),
                     velocity := \<lparr>direction = math_atan2 (- (1 / 3)) 20,
                                  magnitude = sqrt (20 * 20 + (1 / 3) * (1 / 3))\<rparr>\<rparr>,
          sparks)"
    using v
    by (simp add: Ship_update_def Let_def update_position_def update_gravity_def
        update_orientation_def Ship_init_def MAX_Y_def horizontal_component_def
        vertical_component_def)
  moreover have "horizontal_component \<lparr>direction = math_atan2 (- (1 / 3)) 20,
                            magnitude = sqrt (20 * 20 + (1 / 3) * (1 / 3))\<rparr> = 20"
    using polar_cos [of 20 "- (1 / 3)"] by (simp add: horizontal_component_def)
  moreover have "vertical_component \<lparr>direction = math_atan2 (- (1 / 3)) 20,
                          magnitude = sqrt (20 * 20 + (1 / 3) * (1 / 3))\<rparr> = - (G * (1 / 30))"
    using polar_sin [of 20 "- (1 / 3)"] by (simp add: vertical_component_def G_def)
  ultimately show ?thesis by (simp add: G_def)
qed

end
